theory Spec2Isabelle
  imports Main "HOL-Library.Multiset"
begin

section \<open>Layer generators and the block compiler of \<open>models/modules.py\<close>\<close>

text \<open>
  Python exceptions are values. \<open>KeyError\<close> carries the missing key, which is all a
  Python \<open>KeyError\<close> raised by a dictionary lookup carries.
\<close>

datatype error =
    TypeError
  | IndexError
  | AttributeError
  | RuntimeError
  | ValueError
  | KeyError string
  | NotImplementedError

subsection \<open>Layer generators\<close>

text \<open>
  \<open>Pool.__init__\<close> stores the pooling class chosen by the type letter; the other
  generators store their arguments. \<open>Conv\<close> holds \<open>out_channels\<close>, \<open>kernel_size\<close>
  and \<open>stride\<close>; \<open>Pool\<close> holds the class, \<open>kernel_size\<close> and \<open>stride\<close>.
\<close>

datatype pool_cls = AvgPool2d_cls | MaxPool2d_cls | SumPool2d_cls

datatype LayerGen =
    Pass
  | Conv int int int
  | Pool pool_cls int int
  | Norm
  | LIF
  | Return

definition Conv_init :: "int \<Rightarrow> LayerGen" where
  "Conv_init oc = Conv oc 3 1"

definition Pool_init :: "string \<Rightarrow> int \<Rightarrow> int \<Rightarrow> error + LayerGen" where
  "Pool_init ty kernel_size stride =
     (if ty = ''A'' then Inr (Pool AvgPool2d_cls kernel_size stride)
      else if ty = ''M'' then Inr (Pool MaxPool2d_cls kernel_size stride)
      else if ty = ''S'' then Inr (Pool SumPool2d_cls kernel_size stride)
      else Inl ValueError)"

text \<open>
  \<open>ListGen = List[LayerGen | ListGen]\<close>: an element of a configuration list is a layer
  generator or again a configuration list.
\<close>

datatype cfg = Gen LayerGen | Sub "cfg list"

type_synonym ListGen = "cfg list"

subsection \<open>Modules\<close>

text \<open>
  The objects a generator's \<open>get\<close> returns. \<open>Conv2d\<close> has \<open>in_channels\<close>,
  \<open>out_channels\<close>, \<open>kernel_size\<close>, \<open>padding\<close>, \<open>stride\<close>; the pools have
  \<open>kernel_size\<close>, \<open>stride\<close> (and \<open>SumPool2d\<close> its \<open>padding\<close>); \<open>BatchNorm2d\<close> has
  its feature count. \<open>Identity_class\<close> is the class object \<open>nn.Identity\<close> itself, which
  is what \<open>Pass.get\<close> returns: the source writes \<open>nn.Identity\<close> with no call.
  A \<open>BlockGen\<close> is a module too; its fields are \<open>net\<close> (one layer list per branch),
  \<open>branch_state\<close> (the mask of layers called with a state) and \<open>out_channels\<close>, which
  is a class annotation without a value and so has no value until \<open>__init__\<close> assigns it.
  The constructors of the torch and norse layers are taken to succeed; the tensor
  \<open>Storage\<close> keeps aside is not tracked. What \<open>nn.Conv2d\<close> and \<open>nn.BatchNorm2d\<close> raise
  for a channel count or a size that is negative is torch's and is not modelled: \<open>get\<close>
  below is total.
\<close>

datatype module =
    Conv2d int int int int int
  | AvgPool2d int int
  | MaxPool2d int int
  | SumPool2d int int int
  | BatchNorm2d int
  | LIFCell
  | Storage
  | Identity_class
  | BlockGen (net: "module list list") (branch_state: "bool list list")
      (out_channels: "int option")

text \<open>
  \<open>int(kernel_size / 2)\<close>: true division, then truncation towards zero. The quotient
  is a float in Python, and it is the exact half for \<open>\<bar>kernel_size\<bar> < 2 ^ 53\<close>; sizes
  beyond that, where the float is rounded, are outside this definition.
\<close>

definition int_half :: "int \<Rightarrow> int" where
  "int_half k = (if 0 \<le> k then k div 2 else - ((- k) div 2))"

fun get :: "LayerGen \<Rightarrow> int \<Rightarrow> module \<times> int" where
  "get Pass in_channels = (Identity_class, in_channels)"
| "get (Conv oc kernel_size stride) in_channels =
     (Conv2d in_channels oc kernel_size (int_half kernel_size) stride, oc)"
| "get (Pool pool kernel_size stride) in_channels =
     ((case pool of
         AvgPool2d_cls \<Rightarrow> AvgPool2d kernel_size stride
       | MaxPool2d_cls \<Rightarrow> MaxPool2d kernel_size stride
       | SumPool2d_cls \<Rightarrow> SumPool2d kernel_size stride 0), in_channels)"
| "get Norm in_channels = (BatchNorm2d in_channels, in_channels)"
| "get LIF in_channels = (LIFCell, in_channels)"
| "get Return in_channels = (Storage, in_channels)"

text \<open>
  \<open>nn.ModuleList(layer_list)\<close> registers every element with \<open>add_module\<close>, which raises
  \<open>TypeError\<close> for an element that is not an instance of \<open>nn.Module\<close>. A class object
  is not an instance.
\<close>

definition is_Module :: "module \<Rightarrow> bool" where
  "is_Module m = (m \<noteq> Identity_class)"

definition ModuleList :: "module list \<Rightarrow> error + module list" where
  "ModuleList ms = (if list_all is_Module ms then Inr ms else Inl TypeError)"

text \<open>
  Modelled from the spec: \<open>_is_module_stateful\<close> is norse's and not part of the
  repository. Temporal statefulness is a static property of the kind of layer: a layer
  is stateful when its \<open>forward\<close> takes a state, which holds for the LIF cell and for a
  \<open>BlockGen\<close> (\<open>forward(self, X, state=None)\<close>) and for no other layer here.
\<close>

fun is_module_stateful :: "module \<Rightarrow> bool" where
  "is_module_stateful LIFCell = True"
| "is_module_stateful (BlockGen n f oc) = True"
| "is_module_stateful m = False"

subsection \<open>\<open>BlockGen.__init__\<close> and \<open>BlockGen._make_branch\<close>\<close>

text \<open>
  The two loops carry the lists they append to. \<open>BlockGen_init_loop\<close> is the loop of
  \<open>__init__\<close> over \<open>cfgs\<close> with \<open>branch_list\<close>, \<open>self.branch_state\<close> and
  \<open>self.out_channels\<close>; \<open>make_branch_loop\<close> is the loop of \<open>_make_branch\<close> with the
  running \<open>channels\<close>, \<open>layer_list\<close> and \<open>state_layers\<close>. Iterating over a branch
  configuration that is a generator and not a list raises \<open>TypeError\<close>; reading
  \<open>out_channels\<close> of a nested block that never assigned it raises \<open>AttributeError\<close>.
\<close>

fun BlockGen_init_loop ::
    "int \<Rightarrow> cfg list \<Rightarrow> module list list \<Rightarrow> bool list list \<Rightarrow> int option \<Rightarrow> error + module"
  and make_branch :: "int \<Rightarrow> cfg \<Rightarrow> error + (module list \<times> bool list \<times> int)"
  and make_branch_loop ::
    "int \<Rightarrow> cfg list \<Rightarrow> module list \<Rightarrow> bool list \<Rightarrow> error + (module list \<times> bool list \<times> int)"
where
  "BlockGen_init_loop in_channels [] branch_list bstate oc = Inr (BlockGen branch_list bstate oc)"
| "BlockGen_init_loop in_channels (branch_cfg # cfgs) branch_list bstate oc =
     (case make_branch in_channels branch_cfg of
        Inl e \<Rightarrow> Inl e
      | Inr (layer_list, state_layers, ch) \<Rightarrow>
          BlockGen_init_loop in_channels cfgs (branch_list @ [layer_list])
            (bstate @ [state_layers]) (Some ch))"
| "make_branch in_channels (Gen g) = Inl TypeError"
| "make_branch in_channels (Sub c) =
     (case make_branch_loop in_channels c [] [] of
        Inl e \<Rightarrow> Inl e
      | Inr (layer_list, state_layers, channels) \<Rightarrow>
          (case ModuleList layer_list of
             Inl e \<Rightarrow> Inl e
           | Inr ml \<Rightarrow> Inr (ml, state_layers, channels)))"
| "make_branch_loop channels [] layer_list state_layers =
     Inr (layer_list, state_layers, channels)"
| "make_branch_loop channels (Sub layer_gen # c) layer_list state_layers =
     (case BlockGen_init_loop channels layer_gen [] [] None of
        Inl e \<Rightarrow> Inl e
      | Inr layer \<Rightarrow>
          (case out_channels layer of
             None \<Rightarrow> Inl AttributeError
           | Some channels' \<Rightarrow>
               make_branch_loop channels' c (layer_list @ [layer])
                 (state_layers @ [is_module_stateful layer])))"
| "make_branch_loop channels (Gen layer_gen # c) layer_list state_layers =
     (case get layer_gen channels of
        (layer, channels') \<Rightarrow>
          make_branch_loop channels' c (layer_list @ [layer])
            (state_layers @ [is_module_stateful layer]))"

definition BlockGen_init :: "int \<Rightarrow> ListGen \<Rightarrow> error + module" where
  "BlockGen_init in_channels cfgs = BlockGen_init_loop in_channels cfgs [] [] None"

text \<open>Reading the attribute \<open>out_channels\<close> of a block.\<close>

definition read_out_channels :: "module \<Rightarrow> error + int" where
  "read_out_channels b = (case out_channels b of None \<Rightarrow> Inl AttributeError | Some c \<Rightarrow> Inr c)"


section \<open>Execution: \<open>BlockGen.forward\<close>\<close>

subsection \<open>Tensors, layers and state containers\<close>

text \<open>
  A tensor is its shape and its elements in row-major order; the elements are exact
  numbers. \<open>torch.stack(out).sum(dim=0)\<close> needs a non-empty list of tensors of equal
  size (the same shape, hence the same number of elements) and adds them element by
  element; otherwise \<open>torch.stack\<close> raises \<open>RuntimeError\<close>.
\<close>

datatype 'a tensor = Tensor (shape: "nat list") (data: "'a list")

definition same_size :: "'a tensor \<Rightarrow> 'a tensor \<Rightarrow> bool" where
  "same_size t u = (shape u = shape t \<and> length (data u) = length (data t))"

definition stack_sum :: "'a::comm_monoid_add tensor list \<Rightarrow> error + 'a tensor" where
  "stack_sum out =
     (case out of
        [] \<Rightarrow> Inl RuntimeError
      | t # ts \<Rightarrow>
          if list_all (same_size t) ts
          then Inr (Tensor (shape t)
                 (map (\<lambda>i. sum_list (map (\<lambda>u. data u ! i) out)) [0..<length (data t)]))
          else Inl RuntimeError)"

definition scale :: "'a::comm_ring_1 tensor \<Rightarrow> int \<Rightarrow> 'a tensor" where
  "scale t k = Tensor (shape t) (map (\<lambda>x. x * of_int k) (data t))"

text \<open>
  The numeric layers of torch and norse are not part of the repository; the runtime is
  given them: \<open>apply_layer\<close> runs a convolution, a torch pooling or a normalisation on a
  tensor, \<open>avg_pool2d\<close> is \<open>F.avg_pool2d\<close>, and \<open>lif_cell\<close> runs the LIF cell on a
  tensor and its previous state (or none) and returns the spikes and the new state.
  Each may fail, for instance on a tensor whose channel count it does not expect.
\<close>

record ('a, 's) layers =
  apply_layer :: "module \<Rightarrow> 'a tensor \<Rightarrow> error + 'a tensor"
  avg_pool2d :: "'a tensor \<Rightarrow> int \<Rightarrow> int \<Rightarrow> int \<Rightarrow> error + 'a tensor"
  lif_cell :: "'a tensor \<Rightarrow> 's option \<Rightarrow> error + ('a tensor \<times> 's)"

text \<open>
  \<open>ListState = List[torch.Tensor | None | ListState]\<close>: a state is \<open>None\<close>, the state of
  one stateful layer, or a list of states. The container is a value here: its lists are
  taken to be distinct objects, as they are in every container \<open>forward\<close> builds from
  \<open>None\<close>. The store model further below drops that assumption, and on such containers
  it agrees with this one (\<open>forward_h_simulates_forward\<close>, \<open>forward_h_fails_with_forward\<close>).
\<close>

datatype 's state = SNone | SLeaf 's | SList "'s state list"

text \<open>
  \<open>branch_state[idx]\<close> read and written. Past the end of the list Python raises
  \<open>IndexError\<close>. The containers of the model are those of the type \<open>ListState\<close>: a
  list at every place where the code indexes or iterates. A leaf at such a place is
  outside that type; in Python it is the state object of a norse layer, which can be
  indexed and iterated by its fields, and the error there, if any, comes from the layer
  that is handed a field. The model does not follow the fields of a leaf and gives
  \<open>TypeError\<close> at once.
\<close>

fun getitem :: "'s state \<Rightarrow> nat \<Rightarrow> error + 's state" where
  "getitem (SList xs) idx = (if idx < length xs then Inr (xs ! idx) else Inl IndexError)"
| "getitem s idx = Inl TypeError"

fun setitem :: "'s state \<Rightarrow> nat \<Rightarrow> 's state \<Rightarrow> 's state" where
  "setitem (SList xs) idx v = SList (xs[idx := v])"
| "setitem s idx v = s"

subsection \<open>Calling a layer\<close>

text \<open>
  \<open>layer(Y)\<close>, the call for a mask bit that is false. \<open>Storage.forward\<close> returns its
  argument; \<open>SumPool2d.forward\<close> is the average pool times \<open>kernel_size\<close> twice. A LIF
  cell or a block called this way returns a pair and \<open>nn.Identity(Y)\<close> builds a module,
  so \<open>Y\<close> is no tensor afterwards and its next use raises \<open>TypeError\<close>; no mask computed
  by \<open>_make_branch\<close> leads there.
\<close>

fun call :: "('a::comm_ring_1, 's) layers \<Rightarrow> module \<Rightarrow> 'a tensor \<Rightarrow> error + 'a tensor" where
  "call L Storage X = Inr X"
| "call L (SumPool2d kernel_size stride padding) X =
     (case avg_pool2d L X kernel_size stride padding of
        Inl e \<Rightarrow> Inl e
      | Inr Z \<Rightarrow> Inr (scale (scale Z kernel_size) kernel_size))"
| "call L LIFCell X = Inl TypeError"
| "call L (BlockGen n f oc) X = Inl TypeError"
| "call L Identity_class X = Inl TypeError"
| "call L m X = apply_layer L m X"

text \<open>
  \<open>forward L layer Y state\<close> is \<open>layer(Y, state)\<close>, the call for a mask bit that is true.
  For a \<open>BlockGen\<close> it is \<open>BlockGen.forward\<close>: \<open>forward_branches\<close> is its loop over
  \<open>zip(self.net, self.branch_state, state)\<close>, which ends with the shortest of the three,
  and returns \<open>out\<close> and \<open>out_state\<close>; \<open>forward_layers\<close> is the loop over
  \<open>enumerate(zip(branch, state_flags))\<close> with the running \<open>Y\<close> and \<open>branch_state\<close>.
  A layer whose \<open>forward\<close> takes no state raises \<open>TypeError\<close> when called with one.
  A state of the wrong kind, a leaf given to a block or a list given to the LIF cell, is
  outside \<open>ListState\<close> and is \<open>TypeError\<close> here too; the exception of the real call is
  norse's (an \<open>AttributeError\<close> of the cell for a list) or none at all (a leaf is
  iterable), and the claims below concern no such state.
\<close>

fun forward ::
    "('a::comm_ring_1, 's) layers \<Rightarrow> module \<Rightarrow> 'a tensor \<Rightarrow> 's state \<Rightarrow> error + ('a tensor \<times> 's state)"
  and forward_branches ::
    "('a, 's) layers \<Rightarrow> module list list \<Rightarrow> bool list list \<Rightarrow> 's state list \<Rightarrow> 'a tensor
       \<Rightarrow> error + ('a tensor list \<times> 's state list)"
  and forward_layers ::
    "('a, 's) layers \<Rightarrow> module list \<Rightarrow> bool list \<Rightarrow> nat \<Rightarrow> 'a tensor \<Rightarrow> 's state
       \<Rightarrow> error + ('a tensor \<times> 's state)"
where
  "forward L (BlockGen nets flags oc) X state =
     (case (case state of
              SNone \<Rightarrow> Inr (replicate (length nets) SNone)
            | SList xs \<Rightarrow> Inr xs
            | SLeaf s \<Rightarrow> Inl TypeError) of
        Inl e \<Rightarrow> Inl e
      | Inr st \<Rightarrow>
          (case forward_branches L nets flags st X of
             Inl e \<Rightarrow> Inl e
           | Inr (out, out_state) \<Rightarrow>
               (case stack_sum out of
                  Inl e \<Rightarrow> Inl e
                | Inr Y \<Rightarrow> Inr (Y, SList out_state))))"
| "forward L LIFCell X state =
     (case state of
        SNone \<Rightarrow> (case lif_cell L X None of Inl e \<Rightarrow> Inl e | Inr (Y, s) \<Rightarrow> Inr (Y, SLeaf s))
      | SLeaf s0 \<Rightarrow>
          (case lif_cell L X (Some s0) of Inl e \<Rightarrow> Inl e | Inr (Y, s) \<Rightarrow> Inr (Y, SLeaf s))
      | SList xs \<Rightarrow> Inl TypeError)"
| "forward L (Conv2d a b c d e) X state = Inl TypeError"
| "forward L (AvgPool2d a b) X state = Inl TypeError"
| "forward L (MaxPool2d a b) X state = Inl TypeError"
| "forward L (SumPool2d a b c) X state = Inl TypeError"
| "forward L (BatchNorm2d a) X state = Inl TypeError"
| "forward L Storage X state = Inl TypeError"
| "forward L Identity_class X state = Inl TypeError"
| "forward_branches L (branch # nets) (state_flags # flags) (bstate # st) X =
     (case forward_layers L branch state_flags 0 X
             (case bstate of
                SNone \<Rightarrow> SList (replicate (length branch) SNone)
              | SLeaf s \<Rightarrow> bstate
              | SList xs \<Rightarrow> bstate) of
        Inl e \<Rightarrow> Inl e
      | Inr (Y, bstate') \<Rightarrow>
          (case forward_branches L nets flags st X of
             Inl e \<Rightarrow> Inl e
           | Inr (out, out_state) \<Rightarrow> Inr (Y # out, bstate' # out_state)))"
| "forward_branches L [] flags st X = Inr ([], [])"
| "forward_branches L nets [] st X = Inr ([], [])"
| "forward_branches L nets flags [] X = Inr ([], [])"
| "forward_layers L (layer # branch) (is_state # state_flags) idx Y bstate =
     (if is_state then
        (case getitem bstate idx of
           Inl e \<Rightarrow> Inl e
         | Inr s \<Rightarrow>
             (case forward L layer Y s of
                Inl e \<Rightarrow> Inl e
              | Inr (Y', s') \<Rightarrow>
                  forward_layers L branch state_flags (Suc idx) Y' (setitem bstate idx s')))
      else
        (case call L layer Y of
           Inl e \<Rightarrow> Inl e
         | Inr Y' \<Rightarrow> forward_layers L branch state_flags (Suc idx) Y' bstate))"
| "forward_layers L [] state_flags idx Y bstate = Inr (Y, bstate)"
| "forward_layers L branch [] idx Y bstate = Inr (Y, bstate)"


section \<open>\<open>ModelGen.__init__\<close>\<close>

text \<open>
  \<open>cfg\<close> is a preset name or a configuration list. \<open>_load_cfg\<close> is left to the
  subclasses, none of which is in the repository: it is a parameter here, the registry
  \<open>default_cfgs\<close> it leaves behind or the exception it raises (\<open>NotImplementedError\<close>
  in \<open>ModelGen\<close> itself). An unknown name fails in the dictionary lookup
  \<open>self.default_cfgs[cfg]\<close>. The result is the net and \<open>out_channels\<close>; the
  initialisation of the weights is numeric and left out.
\<close>

datatype cfg_arg = Name string | Literal ListGen

definition ModelGen_init ::
    "error + (string \<rightharpoonup> ListGen) \<Rightarrow> cfg_arg \<Rightarrow> int \<Rightarrow> error + (module \<times> int)" where
  "ModelGen_init load_cfg cfg in_channels =
     (case load_cfg of
        Inl e \<Rightarrow> Inl e
      | Inr default_cfgs \<Rightarrow>
          (case (case cfg of
                   Literal c \<Rightarrow> Inr [Sub c]
                 | Name n \<Rightarrow>
                     (case default_cfgs n of None \<Rightarrow> Inl (KeyError n) | Some c \<Rightarrow> Inr [Sub c])) of
             Inl e \<Rightarrow> Inl e
           | Inr cfgs \<Rightarrow>
               (case BlockGen_init in_channels cfgs of
                  Inl e \<Rightarrow> Inl e
                | Inr b \<Rightarrow>
                    (case read_out_channels b of
                       Inl e \<Rightarrow> Inl e
                     | Inr oc \<Rightarrow> Inr (b, oc)))))"

text \<open>The arguments an exception carries.\<close>

fun error_args :: "error \<Rightarrow> string list" where
  "error_args (KeyError k) = [k]"
| "error_args e = []"


definition ModelGen_load_cfg :: "error + (string \<rightharpoonup> ListGen)" where
  "ModelGen_load_cfg = Inl NotImplementedError"

section \<open>Shapes of graphs and of state containers\<close>

text \<open>
  \<open>compiled\<close> holds of a block whose mask has one row per branch and one bit per layer,
  the bit \<open>_is_module_stateful\<close> gives, at every depth: what \<open>__init__\<close> builds.
\<close>

fun compiled :: "module \<Rightarrow> bool"
  and compiled_branches :: "module list list \<Rightarrow> bool list list \<Rightarrow> bool"
  and compiled_layers :: "module list \<Rightarrow> bool list \<Rightarrow> bool"
where
  "compiled (BlockGen nets flags oc) = compiled_branches nets flags"
| "compiled m = True"
| "compiled_branches [] [] = True"
| "compiled_branches (branch # nets) (state_flags # flags) =
     (compiled_layers branch state_flags \<and> compiled_branches nets flags)"
| "compiled_branches nets flags = False"
| "compiled_layers [] [] = True"
| "compiled_layers (layer # branch) (is_state # state_flags) =
     (is_state = is_module_stateful layer \<and> compiled layer \<and> compiled_layers branch state_flags)"
| "compiled_layers branch state_flags = False"

text \<open>
  A state container mirrors a block when it is a list with one entry per branch, each
  entry a list with one slot per layer, the slot of a nested block mirroring that block
  and the slot of any other layer being no list.
\<close>

fun mirrors :: "module \<Rightarrow> 's state \<Rightarrow> bool"
  and mirrors_branches :: "module list list \<Rightarrow> 's state list \<Rightarrow> bool"
  and mirrors_layers :: "module list \<Rightarrow> 's state list \<Rightarrow> bool"
where
  "mirrors (BlockGen nets flags oc) st =
     (case st of SList out_state \<Rightarrow> mirrors_branches nets out_state | SNone \<Rightarrow> False | SLeaf s \<Rightarrow> False)"
| "mirrors m st = (case st of SList xs \<Rightarrow> False | SNone \<Rightarrow> True | SLeaf s \<Rightarrow> True)"
| "mirrors_branches [] [] = True"
| "mirrors_branches (branch # nets) (bstate # out_state) =
     ((case bstate of SList slots \<Rightarrow> mirrors_layers branch slots | SNone \<Rightarrow> False | SLeaf s \<Rightarrow> False)
      \<and> mirrors_branches nets out_state)"
| "mirrors_branches nets out_state = False"
| "mirrors_layers [] [] = True"
| "mirrors_layers (layer # branch) (slot # slots) =
     (mirrors layer slot \<and> mirrors_layers branch slots)"
| "mirrors_layers branch slots = False"

text \<open>Every leaf of a container is \<open>None\<close>; no layer of a block is a LIF cell.\<close>

fun leaves_absent :: "'s state \<Rightarrow> bool" where
  "leaves_absent SNone = True"
| "leaves_absent (SLeaf s) = False"
| "leaves_absent (SList xs) = list_all leaves_absent xs"

fun no_lif :: "module \<Rightarrow> bool" where
  "no_lif LIFCell = False"
| "no_lif (BlockGen nets flags oc) = list_all (list_all no_lif) nets"
| "no_lif m = True"

text \<open>
  The caller's loop over a sequence of inputs: each call gets the state the call before
  returned, and the outputs and states are collected.
\<close>

fun run_steps ::
  "('a::comm_ring_1, 's) layers \<Rightarrow> module \<Rightarrow> 'a tensor list \<Rightarrow> 's state
     \<Rightarrow> error + ('a tensor \<times> 's state) list" where
  "run_steps L b [] state = Inr []"
| "run_steps L b (X # Xs) state =
     (case forward L b X state of
        Inl e \<Rightarrow> Inl e
      | Inr (Y, state') \<Rightarrow>
          (case run_steps L b Xs state' of
             Inl e \<Rightarrow> Inl e
           | Inr r \<Rightarrow> Inr ((Y, state') # r)))"


section \<open>Permuting the branches of a merge group\<close>

text \<open>
  \<open>permute p xs\<close> lists \<open>xs\<close> in the order the indices \<open>p\<close> give; a state container is
  permuted in its branch entries. \<open>prepared\<close> is the branch state the loop body starts
  from: \<open>[None] * len(branch) if branch_state is None else branch_state\<close>.
\<close>

definition permute :: "nat list \<Rightarrow> 'a list \<Rightarrow> 'a list" where
  "permute p xs = map ((!) xs) p"

fun permute_state :: "nat list \<Rightarrow> 's state \<Rightarrow> 's state" where
  "permute_state p (SList xs) = SList (permute p xs)"
| "permute_state p s = s"

definition prepared :: "module list \<Rightarrow> 's state \<Rightarrow> 's state" where
  "prepared branch bstate =
     (case bstate of SNone \<Rightarrow> SList (replicate (length branch) SNone)
      | SLeaf s \<Rightarrow> bstate | SList xs \<Rightarrow> bstate)"

section \<open>The state container in a store\<close>

text \<open>
  Python lists are objects: \<open>branch_state[idx] = ...\<close> writes into the list the caller
  passed, and \<open>out_state.append(branch_state)\<close> stores that same list. To say what a
  call does to the caller's container, the lists live in a store here: a value is
  \<open>None\<close>, the state of a stateful layer, or the address of a list, and the store holds
  the elements of every list, a new list taking the next address. \<open>forward_h\<close>,
  \<open>forward_branches_h\<close> and \<open>forward_layers_h\<close> are \<open>forward\<close> and its two loops again,
  statement by statement, on the store: \<open>out_state = []\<close> and \<open>[None] * n\<close> allocate,
  the loop over \<open>zip(self.net, self.branch_state, state)\<close> reads entry \<open>k\<close> of the state
  list when it gets there, and the assignment to \<open>branch_state[idx]\<close> updates the list
  in place after the layer has run. A reference that is no address of the store, and a
  state that is no list where the code indexes it, are modelled as errors, as in
  \<open>forward\<close>.
\<close>

datatype 's pyval = VNone | VLeaf 's | VRef nat

type_synonym 's store = "'s pyval list list"

fun forward_h ::
    "('a::comm_ring_1, 's) layers \<Rightarrow> module \<Rightarrow> 'a tensor \<Rightarrow> 's pyval \<Rightarrow> 's store
       \<Rightarrow> error + ('a tensor \<times> 's pyval \<times> 's store)"
  and forward_branches_h ::
    "('a, 's) layers \<Rightarrow> module list list \<Rightarrow> bool list list \<Rightarrow> nat \<Rightarrow> nat \<Rightarrow> 'a tensor \<Rightarrow> nat
       \<Rightarrow> 's store \<Rightarrow> error + ('a tensor list \<times> 's store)"
  and forward_layers_h ::
    "('a, 's) layers \<Rightarrow> module list \<Rightarrow> bool list \<Rightarrow> nat \<Rightarrow> 'a tensor \<Rightarrow> 's pyval
       \<Rightarrow> 's store \<Rightarrow> error + ('a tensor \<times> 's store)"
where
  "forward_h L (BlockGen nets flags oc) X state h =
     (case (case state of
              VNone \<Rightarrow> Inr (Suc (length h), h @ [[], replicate (length nets) VNone])
            | VRef a \<Rightarrow> if a < length h then Inr (a, h @ [[]]) else Inl TypeError
            | VLeaf s \<Rightarrow> Inl TypeError) of
        Inl e \<Rightarrow> Inl e
      | Inr (state_ref, h1) \<Rightarrow>
          (case forward_branches_h L nets flags state_ref 0 X (length h) h1 of
             Inl e \<Rightarrow> Inl e
           | Inr (out, h2) \<Rightarrow>
               (case stack_sum out of
                  Inl e \<Rightarrow> Inl e
                | Inr Y \<Rightarrow> Inr (Y, VRef (length h), h2))))"
| "forward_h L LIFCell X state h =
     (case state of
        VNone \<Rightarrow> (case lif_cell L X None of Inl e \<Rightarrow> Inl e | Inr (Y, s) \<Rightarrow> Inr (Y, VLeaf s, h))
      | VLeaf s0 \<Rightarrow>
          (case lif_cell L X (Some s0) of Inl e \<Rightarrow> Inl e | Inr (Y, s) \<Rightarrow> Inr (Y, VLeaf s, h))
      | VRef a \<Rightarrow> Inl TypeError)"
| "forward_h L (Conv2d a b c d e) X state h = Inl TypeError"
| "forward_h L (AvgPool2d a b) X state h = Inl TypeError"
| "forward_h L (MaxPool2d a b) X state h = Inl TypeError"
| "forward_h L (SumPool2d a b c) X state h = Inl TypeError"
| "forward_h L (BatchNorm2d a) X state h = Inl TypeError"
| "forward_h L Storage X state h = Inl TypeError"
| "forward_h L Identity_class X state h = Inl TypeError"
| "forward_branches_h L (branch # nets) (state_flags # flags) state_ref k X out_state h =
     (if k < length (h ! state_ref) then
        (case (case h ! state_ref ! k of
                 VNone \<Rightarrow> (VRef (length h), h @ [replicate (length branch) VNone])
               | VLeaf s \<Rightarrow> (VLeaf s, h)
               | VRef r \<Rightarrow> (VRef r, h)) of
           (bstate, h1) \<Rightarrow>
             (case forward_layers_h L branch state_flags 0 X bstate h1 of
                Inl e \<Rightarrow> Inl e
              | Inr (Y, h2) \<Rightarrow>
                  (case forward_branches_h L nets flags state_ref (Suc k) X out_state
                          (h2[out_state := h2 ! out_state @ [bstate]]) of
                     Inl e \<Rightarrow> Inl e
                   | Inr (out, h3) \<Rightarrow> Inr (Y # out, h3))))
      else Inr ([], h))"
| "forward_branches_h L [] flags state_ref k X out_state h = Inr ([], h)"
| "forward_branches_h L nets [] state_ref k X out_state h = Inr ([], h)"
| "forward_layers_h L (layer # branch) (is_state # state_flags) idx Y bstate h =
     (if is_state then
        (case bstate of
           VRef r \<Rightarrow>
             if r < length h \<and> idx < length (h ! r) then
               (case forward_h L layer Y (h ! r ! idx) h of
                  Inl e \<Rightarrow> Inl e
                | Inr (Y', s', h1) \<Rightarrow>
                    if idx < length (h1 ! r) then
                      forward_layers_h L branch state_flags (Suc idx) Y' bstate
                        (h1[r := (h1 ! r)[idx := s']])
                    else Inl IndexError)
             else Inl IndexError
         | VNone \<Rightarrow> Inl TypeError
         | VLeaf s \<Rightarrow> Inl TypeError)
      else
        (case call L layer Y of
           Inl e \<Rightarrow> Inl e
         | Inr Y' \<Rightarrow> forward_layers_h L branch state_flags (Suc idx) Y' bstate h))"
| "forward_layers_h L [] state_flags idx Y bstate h = Inr (Y, h)"
| "forward_layers_h L branch [] idx Y bstate h = Inr (Y, h)"


subsection \<open>Containers of the store that are trees\<close>

text \<open>
  \<open>repr h v s A\<close>: in the store \<open>h\<close> the value \<open>v\<close> stands for the container \<open>s\<close> of
  \<open>forward\<close>, and \<open>A\<close> is the set of the addresses of its lists. Every list is reached
  once only: the lists of two entries are disjoint, and no list contains itself. This is
  the container of a caller who builds each list anew, as \<open>forward\<close> itself does for an
  absent state. \<open>frame h A h' A'\<close>: the store \<open>h'\<close> extends \<open>h\<close>, the lists outside \<open>A\<close> are
  as they were, and the addresses \<open>A'\<close> are among \<open>A\<close> and the new ones. The three relations
  \<open>sim_forward\<close>, \<open>sim_branches\<close> and \<open>sim_layers\<close> relate a result of \<open>forward\<close> and of its
  two loops to the result of the same code on the store: the same error, or the same
  tensors and a value of the new store that stands for the returned container.
\<close>

inductive repr :: "'s store \<Rightarrow> 's pyval \<Rightarrow> 's state \<Rightarrow> nat set \<Rightarrow> bool"
  and reprs :: "'s store \<Rightarrow> 's pyval list \<Rightarrow> 's state list \<Rightarrow> nat set \<Rightarrow> bool"
where
  repr_None: "repr h VNone SNone {}"
| repr_Leaf: "repr h (VLeaf x) (SLeaf x) {}"
| repr_Ref: "a < length h \<Longrightarrow> reprs h (h ! a) xs A \<Longrightarrow> a \<notin> A
             \<Longrightarrow> repr h (VRef a) (SList xs) (insert a A)"
| reprs_Nil: "reprs h [] [] {}"
| reprs_Cons: "repr h v s A \<Longrightarrow> reprs h vs ss B \<Longrightarrow> A \<inter> B = {}
             \<Longrightarrow> reprs h (v # vs) (s # ss) (A \<union> B)"

definition frame :: "'s store \<Rightarrow> nat set \<Rightarrow> 's store \<Rightarrow> nat set \<Rightarrow> bool" where
  "frame h A h' A' =
     (length h \<le> length h' \<and> A' \<subseteq> A \<union> {length h..<length h'} \<and>
      (\<forall>a<length h. a \<notin> A \<longrightarrow> h' ! a = h ! a))"

text \<open>
  \<open>reused n v v'\<close>: the entry \<open>v'\<close> of the returned list for the entry \<open>v\<close> of the
  caller's list, in a store that had \<open>n\<close> lists: a list that did not exist for \<open>None\<close>,
  and \<open>v\<close> itself otherwise.
\<close>

fun reused :: "nat \<Rightarrow> 's pyval \<Rightarrow> 's pyval \<Rightarrow> bool" where
  "reused n VNone v' = (case v' of VRef r \<Rightarrow> n \<le> r | VNone \<Rightarrow> False | VLeaf x \<Rightarrow> False)"
| "reused n (VLeaf x) v' = (v' = VLeaf x)"
| "reused n (VRef r) v' = (v' = VRef r)"

inductive_cases repr_RefE: "repr h (VRef r) s A"
inductive_cases repr_NoneE: "repr h v SNone A"
inductive_cases repr_LeafE: "repr h v (SLeaf x) A"
inductive_cases repr_ListE: "repr h v (SList xs) A"
inductive_cases reprs_NilE: "reprs h vs [] A"
inductive_cases reprs_ConsE: "reprs h vs (s # ss) A"
inductive_cases reprs_Nil2E: "reprs h [] ss A"
inductive_cases reprs_Cons2E: "reprs h (v # vs) ss A"

definition sim_forward where
  "sim_forward h A r rh =
     (case r of
        Inl e \<Rightarrow> rh = Inl e
      | Inr (Y, s') \<Rightarrow> \<exists>v' h' A'. rh = Inr (Y, v', h') \<and> repr h' v' s' A' \<and> frame h A h' A')"

definition sim_layers where
  "sim_layers h A bv r rh =
     (case r of
        Inl e \<Rightarrow> rh = Inl e
      | Inr (Y, bs') \<Rightarrow> \<exists>h' A'. rh = Inr (Y, h') \<and> repr h' bv bs' A' \<and> frame h A h' A')"

definition sim_branches where
  "sim_branches h A osr vs r rh =
     (case r of
        Inl e \<Rightarrow> rh = Inl e
      | Inr (out, os) \<Rightarrow>
          \<exists>h' vs' A'. rh = Inr (out, h') \<and> h' ! osr = h ! osr @ vs' \<and> reprs h' vs' os A' \<and>
             list_all2 (reused (length h)) (take (length vs') vs) vs' \<and>
             length h \<le> length h' \<and> A' \<subseteq> A \<union> {length h..<length h'} \<and>
             (\<forall>a<length h. a \<notin> A \<longrightarrow> a \<noteq> osr \<longrightarrow> h' ! a = h ! a))"

subsection \<open>Layers for concrete runs\<close>

text \<open>Stand-ins for the numeric layers, to run the model on concrete inputs.\<close>

definition test_layers :: "(int, nat) layers" where
  "test_layers =
     \<lparr>apply_layer = (\<lambda>m X. Inr X),
      avg_pool2d = (\<lambda>X k s p. Inr X),
      lif_cell = (\<lambda>X s. Inr (X, case s of None \<Rightarrow> 0 | Some n \<Rightarrow> Suc n))\<rparr>"

section \<open>Properties of the compiler\<close>

lemma init_loop_char:
  "BlockGen_init_loop c cfgs bl bs oc = Inr b \<longleftrightarrow>
     (\<exists>rs. map (make_branch c) cfgs = map Inr rs \<and>
        b = BlockGen (bl @ map fst rs) (bs @ map (fst \<circ> snd) rs)
              (if rs = [] then oc else Some (snd (snd (last rs)))))"
proof (induction cfgs arbitrary: bl bs oc)
  case Nil
  then show ?case by auto
next
  case (Cons a cfgs)
  show ?case
  proof (cases "make_branch c a")
    case (Inl e)
    then show ?thesis by (auto simp: map_eq_Cons_conv)
  next
    case (Inr r)
    obtain ll sl ch where r: "r = (ll, sl, ch)" by (cases r)
    have mb: "make_branch c a = Inr (ll, sl, ch)" using Inr r by simp
    show ?thesis
    proof
      assume "BlockGen_init_loop c (a # cfgs) bl bs oc = Inr b"
      then obtain rs where rs: "map (make_branch c) cfgs = map Inr rs"
        and b: "b = BlockGen ((bl @ [ll]) @ map fst rs) ((bs @ [sl]) @ map (fst \<circ> snd) rs)
              (if rs = [] then Some ch else Some (snd (snd (last rs))))"
        using Cons.IH mb by auto
      show "\<exists>rs. map (make_branch c) (a # cfgs) = map Inr rs \<and>
        b = BlockGen (bl @ map fst rs) (bs @ map (fst \<circ> snd) rs)
              (if rs = [] then oc else Some (snd (snd (last rs))))"
        by (rule exI[of _ "(ll, sl, ch) # rs"]) (simp add: rs b mb)
    next
      assume "\<exists>rs. map (make_branch c) (a # cfgs) = map Inr rs \<and>
        b = BlockGen (bl @ map fst rs) (bs @ map (fst \<circ> snd) rs)
              (if rs = [] then oc else Some (snd (snd (last rs))))"
      then obtain rs where m: "map (make_branch c) (a # cfgs) = map Inr rs"
        and b: "b = BlockGen (bl @ map fst rs) (bs @ map (fst \<circ> snd) rs)
              (if rs = [] then oc else Some (snd (snd (last rs))))" by blast
      from m mb obtain rs' where rs': "rs = (ll, sl, ch) # rs'"
        and m': "map (make_branch c) cfgs = map Inr rs'" by (cases rs) auto
      have "BlockGen_init_loop c cfgs (bl @ [ll]) (bs @ [sl]) (Some ch) = Inr b"
        unfolding Cons.IH by (rule exI[of _ rs']) (simp add: m' b rs')
      then show "BlockGen_init_loop c (a # cfgs) bl bs oc = Inr b"
        by (simp add: mb)
    qed
  qed
qed

lemma compiled_layers_all2:
  "compiled_layers ls fs = list_all2 (\<lambda>l f. f = is_module_stateful l \<and> compiled l) ls fs"
  by (induction ls arbitrary: fs) (case_tac fs; simp)+

lemma compiled_branches_all2:
  "compiled_branches ns fs = list_all2 compiled_layers ns fs"
  by (induction ns arbitrary: fs) (case_tac fs; simp)+

lemma mirrors_layers_all2: "mirrors_layers ls ss = list_all2 mirrors ls ss"
  by (induction ls arbitrary: ss) (case_tac ss; simp)+

lemma compiled_branches_snoc:
  "compiled_branches bl bs \<Longrightarrow> compiled_layers ll sl \<Longrightarrow> compiled_branches (bl @ [ll]) (bs @ [sl])"
  by (simp add: compiled_branches_all2 list_all2_appendI)

lemma compiled_layers_snoc:
  "compiled_layers ll sl \<Longrightarrow> compiled l \<Longrightarrow>
   compiled_layers (ll @ [l]) (sl @ [is_module_stateful l])"
  by (simp add: compiled_layers_all2 list_all2_appendI)

lemma compiled_get: "compiled (fst (get g c))"
  by (cases g) (auto split: pool_cls.splits)

lemma compile_compiled:
  "\<forall>b. BlockGen_init_loop c cfgs bl bs oc = Inr b \<longrightarrow> compiled_branches bl bs \<longrightarrow> compiled b"
  "\<forall>r. make_branch c' cf = Inr r \<longrightarrow> compiled_layers (fst r) (fst (snd r))"
  "\<forall>r. make_branch_loop ch items ll sl = Inr r \<longrightarrow> compiled_layers ll sl
       \<longrightarrow> compiled_layers (fst r) (fst (snd r))"
proof (induction c cfgs bl bs oc and c' cf and ch items ll sl
    rule: BlockGen_init_loop_make_branch_make_branch_loop.induct)
  case (1 in_channels branch_list bstate oc)
  then show ?case by simp
next
  case (2 in_channels branch_cfg cfgs branch_list bstate oc)
  show ?case
  proof (intro allI impI)
    fix b
    assume run: "BlockGen_init_loop in_channels (branch_cfg # cfgs) branch_list bstate oc = Inr b"
      and acc: "compiled_branches branch_list bstate"
    from run obtain ll sl ch where mb: "make_branch in_channels branch_cfg = Inr (ll, sl, ch)"
      and rest: "BlockGen_init_loop in_channels cfgs (branch_list @ [ll]) (bstate @ [sl]) (Some ch) = Inr b"
      by (auto split: sum.splits)
    from "2.IH"(1) mb have "compiled_layers ll sl" by auto
    with acc have "compiled_branches (branch_list @ [ll]) (bstate @ [sl])"
      by (rule compiled_branches_snoc)
    with "2.IH"(2)[OF mb refl refl] rest show "compiled b" by blast
  qed
next
  case (3 in_channels g)
  then show ?case by simp
next
  case (4 in_channels c)
  then show ?case by (auto split: sum.splits simp: ModuleList_def split: if_splits)
next
  case (5 channels layer_list state_layers)
  then show ?case by simp
next
  case (6 channels layer_gen c layer_list state_layers)
  show ?case
  proof (intro allI impI)
    fix r
    assume run: "make_branch_loop channels (Sub layer_gen # c) layer_list state_layers = Inr r"
      and acc: "compiled_layers layer_list state_layers"
    from run obtain layer ch' where blk: "BlockGen_init_loop channels layer_gen [] [] None = Inr layer"
      and oc: "out_channels layer = Some ch'"
      and rest: "make_branch_loop ch' c (layer_list @ [layer])
                   (state_layers @ [is_module_stateful layer]) = Inr r"
      by (auto split: sum.splits option.splits)
    from "6.IH"(1) blk have "compiled layer" by simp
    with acc have "compiled_layers (layer_list @ [layer]) (state_layers @ [is_module_stateful layer])"
      by (rule compiled_layers_snoc)
    with "6.IH"(2)[OF blk oc] rest show "compiled_layers (fst r) (fst (snd r))" by blast
  qed
next
  case (7 channels layer_gen c layer_list state_layers)
  show ?case
  proof (intro allI impI)
    fix r
    assume run: "make_branch_loop channels (Gen layer_gen # c) layer_list state_layers = Inr r"
      and acc: "compiled_layers layer_list state_layers"
    obtain layer ch' where g: "get layer_gen channels = (layer, ch')" by (cases "get layer_gen channels")
    with run have rest: "make_branch_loop ch' c (layer_list @ [layer])
                   (state_layers @ [is_module_stateful layer]) = Inr r" by simp
    from compiled_get[of layer_gen channels] g have "compiled layer" by simp
    with acc have "compiled_layers (layer_list @ [layer]) (state_layers @ [is_module_stateful layer])"
      by (rule compiled_layers_snoc)
    with "7.IH"[OF g[symmetric]] rest show "compiled_layers (fst r) (fst (snd r))" by blast
  qed
qed

lemma BlockGen_init_compiled: "BlockGen_init c cfgs = Inr b \<Longrightarrow> compiled b"
  using compile_compiled(1)[of c cfgs "[]" "[]" None] by (simp add: BlockGen_init_def)


lemma stack_sum_single: "stack_sum [Y] = Inr Y"
  by (simp add: stack_sum_def map_nth)

text \<open>
  C1, as the code has it: \<open>__init__\<close> never compares the channel counts of the branches.
  Whenever every branch of a non-empty configuration compiles from the input channel
  count, construction completes, whatever the channel counts are, and \<open>out_channels\<close>
  is the channel count of the last branch.
\<close>

theorem BlockGen_init_keeps_last_channels:
  assumes "cfgs \<noteq> []" and "map (make_branch c) cfgs = map Inr rs"
  shows "BlockGen_init c cfgs =
     Inr (BlockGen (map fst rs) (map (fst \<circ> snd) rs) (Some (snd (snd (last rs)))))"
proof -
  from assms have "rs \<noteq> []" by auto
  then show ?thesis
    unfolding BlockGen_init_def init_loop_char using assms(2) by auto
qed

theorem BlockGen_init_keeps_last_channels_witness:
  "[Sub [Gen (Conv 8 3 1)], Sub [Gen (Conv 9 3 1)]] \<noteq> [] \<and>
   map (make_branch 4) [Sub [Gen (Conv 8 3 1)], Sub [Gen (Conv 9 3 1)]] =
     map Inr [([Conv2d 4 8 3 1 1], [False], 8), ([Conv2d 4 9 3 1 1], [False], 9)] \<and>
   BlockGen_init 4 [Sub [Gen (Conv 8 3 1)], Sub [Gen (Conv 9 3 1)]] =
     Inr (BlockGen [[Conv2d 4 8 3 1 1], [Conv2d 4 9 3 1 1]] [[False], [False]] (Some 9))"
  using BlockGen_init_keeps_last_channels
    [of "[Sub [Gen (Conv 8 3 1)], Sub [Gen (Conv 9 3 1)]]" 4
        "[([Conv2d 4 8 3 1 1], [False], 8), ([Conv2d 4 9 3 1 1], [False], 9)]"]
  by (simp add: ModuleList_def is_Module_def int_half_def)

text \<open>
  C1, as the claim states it, fails: two branches that compile from 4 input channels to 8
  and to 9 output channels are accepted, and the block reports 9.
\<close>

theorem BlockGen_init_mismatch_counterexample:
  "make_branch 4 (Sub [Gen (Conv 8 3 1)]) = Inr ([Conv2d 4 8 3 1 1], [False], 8) \<and>
   make_branch 4 (Sub [Gen (Conv 9 3 1)]) = Inr ([Conv2d 4 9 3 1 1], [False], 9) \<and>
   BlockGen_init 4 [Sub [Gen (Conv 8 3 1)], Sub [Gen (Conv 9 3 1)]] =
     Inr (BlockGen [[Conv2d 4 8 3 1 1], [Conv2d 4 9 3 1 1]] [[False], [False]] (Some 9))"
  by (simp add: BlockGen_init_def ModuleList_def is_Module_def int_half_def)

text \<open>
  C5 at the input \<open>Pass().get(3)\<close>: the result is the class \<open>nn.Identity\<close>, not an
  instance of it, with the channel count unchanged; \<open>nn.ModuleList\<close> refuses it, so a
  configuration with a \<open>Pass\<close> does not compile; and calling it on a tensor does not give
  the tensor back.
\<close>

theorem Pass_get_returns_class:
  "get Pass 3 = (Identity_class, 3) \<and>
   \<not> is_Module (fst (get Pass 3)) \<and>
   BlockGen_init 3 [Sub [Gen Pass]] = Inl TypeError \<and>
   call L (fst (get Pass 3)) X = Inl TypeError"
  by (simp add: BlockGen_init_def ModuleList_def is_Module_def)

text \<open>
  C6, as the code has it: a preset name that is not a key of the registry makes
  construction fail with the \<open>KeyError\<close> of the dictionary lookup, which carries the
  requested name and nothing else.
\<close>

theorem ModelGen_init_unknown_name:
  assumes "default_cfgs n = None"
  shows "ModelGen_init (Inr default_cfgs) (Name n) c = Inl (KeyError n) \<and>
         error_args (KeyError n) = [n]"
  using assms by (simp add: ModelGen_init_def)

theorem ModelGen_init_unknown_name_witness:
  "[''vgg'' \<mapsto> [Gen (Conv 8 3 1)]] ''zz'' = None \<and>
   ModelGen_init (Inr [''vgg'' \<mapsto> [Gen (Conv 8 3 1)]]) (Name ''zz'') 2 = Inl (KeyError ''zz'') \<and>
   error_args (KeyError ''zz'') = [''zz'']"
  using ModelGen_init_unknown_name [of "[''vgg'' \<mapsto> [Gen (Conv 8 3 1)]]" "''zz''" 2]
  by simp

text \<open>
  C6, as the claim states it, fails: with the registry holding the one preset \<open>vgg\<close>, the
  error for the unknown name \<open>zz\<close> does not list \<open>vgg\<close>.
\<close>

theorem ModelGen_init_error_lists_no_names_counterexample:
  "ModelGen_init (Inr [''vgg'' \<mapsto> [Gen (Conv 8 3 1)]]) (Name ''zz'') 2 = Inl (KeyError ''zz'') \<and>
   ''vgg'' \<notin> set (error_args (KeyError ''zz''))"
  by (simp add: ModelGen_init_def)

section \<open>Properties of the runtime\<close>

text \<open>
  C7: an empty branch compiles to no layers and the input channel count, and a block of
  one empty branch reports that count; running an empty branch leaves the tensor (and
  the branch state) as they are, so \<open>X\<close> is what the branch adds to \<open>out\<close>; and a
  block with one branch returns the output of that branch, for the state \<open>None\<close> and
  for a state list with a first entry.
\<close>

theorem empty_branch_and_single_branch:
  "make_branch c (Sub []) = Inr ([], [], c)
   \<and> BlockGen_init c [Sub []] = Inr (BlockGen [[]] [[]] (Some c))
   \<and> forward_layers L [] fl 0 X bs = Inr (X, bs)
   \<and> forward_branches L ([] # nets) (fl # flags) (bs # st) X =
      (case forward_branches L nets flags st X of
         Inl e \<Rightarrow> Inl e
       | Inr (out, out_state) \<Rightarrow> Inr (X # out, prepared [] bs # out_state))
   \<and> forward L (BlockGen [br] [fl] oc) X (SList (bs # rest)) =
      (case forward_layers L br fl 0 X (prepared br bs) of
         Inl e \<Rightarrow> Inl e
       | Inr (Y, bs') \<Rightarrow> Inr (Y, SList [bs']))
   \<and> forward L (BlockGen [br] [fl] oc) X SNone =
      (case forward_layers L br fl 0 X (prepared br SNone) of
         Inl e \<Rightarrow> Inl e
       | Inr (Y, bs') \<Rightarrow> Inr (Y, SList [bs']))"
  by (simp add: BlockGen_init_def ModuleList_def stack_sum_single prepared_def
        split: sum.splits prod.splits)

text \<open>
  C10: a configuration with no branch constructs a block whose \<open>out_channels\<close> was never
  assigned, so reading it raises \<open>AttributeError\<close>; running that block raises the
  \<open>RuntimeError\<close> of \<open>torch.stack\<close> on an empty list, whatever the state; nested in a
  branch it makes \<open>_make_branch\<close> fail on \<open>layer.out_channels\<close>; and a constructed
  block has an \<open>out_channels\<close> exactly when the configuration has a branch.
\<close>

theorem BlockGen_zero_branches:
  "BlockGen_init c [] = Inr (BlockGen [] [] None)
   \<and> read_out_channels (BlockGen [] [] None) = Inl AttributeError
   \<and> forward L (BlockGen [] [] None) X SNone = Inl RuntimeError
   \<and> forward L (BlockGen [] [] None) X (SList st) = Inl RuntimeError
   \<and> make_branch_loop ch (Sub [] # rest) ll sl = Inl AttributeError
   \<and> (BlockGen_init c cfgs = Inr b \<longrightarrow> (out_channels b = None) = (cfgs = []))"
  by (auto simp: BlockGen_init_def read_out_channels_def stack_sum_def init_loop_char)

theorem BlockGen_zero_branches_witness:
  "BlockGen_init 3 [] = Inr (BlockGen [] [] None)
   \<and> read_out_channels (BlockGen [] [] None) = Inl AttributeError
   \<and> forward test_layers (BlockGen [] [] None) (Tensor [1] [5]) SNone = Inl RuntimeError
   \<and> forward test_layers (BlockGen [] [] None) (Tensor [1] [5]) (SList [SNone]) = Inl RuntimeError
   \<and> make_branch_loop 3 [Sub []] [] [] = Inl AttributeError
   \<and> BlockGen_init 3 [Sub []] = Inr (BlockGen [[]] [[]] (Some 3))
   \<and> (out_channels (BlockGen [[]] [[]] (Some 3)) = None) = ([Sub []] = [])"
  using BlockGen_zero_branches
    [of 3 test_layers "Tensor [1] [5]" "[SNone]" 3 "[]" "[]" "[]" "[Sub []]" "BlockGen [[]] [[]] (Some 3)"]
  by (simp add: BlockGen_init_def ModuleList_def)

subsection \<open>The shape of the returned state container\<close>

lemma mirrors_branches_all2:
  "mirrors_branches ns os =
     list_all2 (\<lambda>br bs. \<exists>slots. bs = SList slots \<and> mirrors_layers br slots) ns os"
  by (induction ns arbitrary: os) (case_tac os; auto split: state.splits)+

lemma mirrors_leaf:
  "\<not> is_module_stateful l \<Longrightarrow> mirrors l s = (\<forall>xs. s \<noteq> SList xs)"
  by (cases l; cases s) auto

lemma forward_mirrors:
  fixes L :: "('a::comm_ring_1, 's) layers"
  shows
  "\<forall>Y st'. compiled m \<longrightarrow> (st = SNone \<or> mirrors m st) \<longrightarrow>
      forward L m X st = Inr (Y, st') \<longrightarrow> mirrors m st'"
  "\<forall>out os. compiled_branches nets flags \<longrightarrow>
      list_all2 (\<lambda>br bs. bs = SNone \<or> (\<exists>slots. bs = SList slots \<and> mirrors_layers br slots)) nets sts \<longrightarrow>
      forward_branches L nets flags sts X' = Inr (out, os) \<longrightarrow> mirrors_branches nets os"
  "\<forall>done todo Y' bs'. compiled_layers br fl \<longrightarrow> bs = SList (done @ todo) \<longrightarrow> length done = idx \<longrightarrow>
      list_all2 (\<lambda>l s. s = SNone \<or> mirrors l s) br todo \<longrightarrow>
      forward_layers L br fl idx Y0 bs = Inr (Y', bs') \<longrightarrow>
      (\<exists>todo'. bs' = SList (done @ todo') \<and> mirrors_layers br todo')"
proof (induction L m X st and L nets flags sts X' and L br fl idx Y0 bs
    rule: forward_forward_branches_forward_layers.induct)
  case (1 L nets flags oc X state)
  show ?case
  proof (intro allI impI)
    fix Y st'
    assume c: "compiled (BlockGen nets flags oc)"
      and pre: "state = SNone \<or> mirrors (BlockGen nets flags oc) state"
      and run: "forward L (BlockGen nets flags oc) X state = Inr (Y, st')"
    define st where "st = (case state of SNone \<Rightarrow> replicate (length nets) SNone | SList xs \<Rightarrow> xs)"
    from pre have prep: "(case state of SNone \<Rightarrow> Inr (replicate (length nets) SNone)
            | SList xs \<Rightarrow> Inr xs | SLeaf s \<Rightarrow> Inl TypeError) = (Inr st :: error + 's state list)"
      by (auto simp: st_def split: state.splits)
    have all: "list_all2 (\<lambda>br bs. bs = SNone \<or> (\<exists>slots. bs = SList slots \<and> mirrors_layers br slots)) nets st"
      using pre
    proof
      assume "state = SNone"
      then show ?thesis by (simp add: st_def list_all2_conv_all_nth)
    next
      assume "mirrors (BlockGen nets flags oc) state"
      then obtain xs where "state = SList xs" "mirrors_branches nets xs"
        by (cases state) auto
      then have "list_all2 (\<lambda>br bs. \<exists>slots. bs = SList slots \<and> mirrors_layers br slots) nets st"
        by (simp add: st_def mirrors_branches_all2)
      then show ?thesis by (rule list_all2_mono) simp
    qed
    from run prep obtain out os where fb: "forward_branches L nets flags st X = Inr (out, os)"
      and st': "st' = SList os"
      by (auto split: sum.splits)
    from "1.IH"[OF prep] c all fb have "mirrors_branches nets os" by auto
    then show "mirrors (BlockGen nets flags oc) st'" by (simp add: st')
  qed
next
  case (10 L branch nets state_flags flags bstate st X)
  show ?case
  proof (intro allI impI)
    fix out os
    assume c: "compiled_branches (branch # nets) (state_flags # flags)"
      and pre: "list_all2 (\<lambda>br bs. bs = SNone \<or> (\<exists>slots. bs = SList slots \<and> mirrors_layers br slots))
                  (branch # nets) (bstate # st)"
      and run: "forward_branches L (branch # nets) (state_flags # flags) (bstate # st) X = Inr (out, os)"
    define bs0 where "bs0 = (case bstate of SNone \<Rightarrow> SList (replicate (length branch) SNone)
              | SLeaf s \<Rightarrow> bstate | SList xs \<Rightarrow> bstate)"
    from pre have hd: "bstate = SNone \<or> (\<exists>slots. bstate = SList slots \<and> mirrors_layers branch slots)"
      and tl: "list_all2 (\<lambda>br bs. bs = SNone \<or> (\<exists>slots. bs = SList slots \<and> mirrors_layers br slots)) nets st"
      by auto
    have "\<exists>todo. bs0 = SList ([] @ todo) \<and> list_all2 (\<lambda>l s. s = SNone \<or> mirrors l s) branch todo"
      using hd
    proof
      assume "bstate = SNone"
      then have "bs0 = SList ([] @ replicate (length branch) SNone)" by (simp add: bs0_def)
      moreover have "list_all2 (\<lambda>l s. s = SNone \<or> mirrors l s) branch (replicate (length branch) SNone)"
        by (simp add: list_all2_conv_all_nth)
      ultimately show ?thesis by blast
    next
      assume "\<exists>slots. bstate = SList slots \<and> mirrors_layers branch slots"
      then obtain slots where b: "bstate = SList slots" and m: "list_all2 mirrors branch slots"
        by (auto simp: mirrors_layers_all2)
      from m have "list_all2 (\<lambda>l s. s = SNone \<or> mirrors l s) branch slots"
        by (rule list_all2_mono) simp
      with b show ?thesis by (auto simp: bs0_def)
    qed
    then obtain todo where todo: "bs0 = SList ([] @ todo)"
      and acc: "list_all2 (\<lambda>l s. s = SNone \<or> mirrors l s) branch todo" by blast
    from run obtain Y bs' out' os' where fl: "forward_layers L branch state_flags 0 X bs0 = Inr (Y, bs')"
      and fb: "forward_branches L nets flags st X = Inr (out', os')"
      and os: "os = bs' # os'"
      by (auto simp: bs0_def split: sum.splits)
    from c have cl: "compiled_layers branch state_flags" by simp
    from "10.IH"(1)[folded bs0_def, rule_format, OF cl todo _ acc fl]
    obtain todo' where "bs' = SList todo'" "mirrors_layers branch todo'" by auto
    moreover from "10.IH"(2)[OF fl[unfolded bs0_def] refl] c tl fb have "mirrors_branches nets os'"
      by auto
    ultimately show "mirrors_branches (branch # nets) os" by (simp add: os)
  qed
next
  case (14 L layer branch is_state state_flags idx Y bstate)
  show ?case
  proof (intro allI impI)
    fix dn todo Y' bs'
    assume c: "compiled_layers (layer # branch) (is_state # state_flags)"
      and bs: "bstate = SList (dn @ todo)" and len: "length dn = idx"
      and acc: "list_all2 (\<lambda>l s. s = SNone \<or> mirrors l s) (layer # branch) todo"
      and run: "forward_layers L (layer # branch) (is_state # state_flags) idx Y bstate = Inr (Y', bs')"
    from acc obtain s rest where todo: "todo = s # rest" and s: "s = SNone \<or> mirrors layer s"
      and rest: "list_all2 (\<lambda>l s. s = SNone \<or> mirrors l s) branch rest"
      by (auto simp: list_all2_Cons1)
    from c have cl: "compiled layer" and cb: "compiled_layers branch state_flags"
      and fl: "is_state = is_module_stateful layer" by auto
    show "\<exists>todo'. bs' = SList (dn @ todo') \<and> mirrors_layers (layer # branch) todo'"
    proof (cases is_state)
      case True
      have gi: "getitem bstate idx = Inr s" using bs len todo by (simp add: nth_append)
      from run True gi obtain Y1 s' where f: "forward L layer Y s = Inr (Y1, s')"
        and r: "forward_layers L branch state_flags (Suc idx) Y1 (setitem bstate idx s') = Inr (Y', bs')"
        by (auto split: sum.splits)
      from "14.IH"(1)[OF True gi] cl s f have m: "mirrors layer s'" by blast
      have si: "setitem bstate idx s' = SList ((dn @ [s']) @ rest)" using bs todo by (simp add: len[symmetric])
      have len': "length (dn @ [s']) = Suc idx" using len by simp
      from "14.IH"(2)[OF True gi f refl, rule_format, OF cb si len' rest r]
      obtain todo' where "bs' = SList ((dn @ [s']) @ todo')" "mirrors_layers branch todo'"
        by blast
      with m show ?thesis by (intro exI[of _ "s' # todo'"]) simp
    next
      case False
      from run False obtain Y1 where f: "call L layer Y = Inr Y1"
        and r: "forward_layers L branch state_flags (Suc idx) Y1 bstate = Inr (Y', bs')"
        by (auto split: sum.splits)
      from False fl s have m: "mirrors layer s" by (cases layer; cases s) auto
      have si: "bstate = SList ((dn @ [s]) @ rest)" using bs todo by simp
      have len': "length (dn @ [s]) = Suc idx" using len by simp
      from "14.IH"(3)[OF False f, rule_format, OF cb si len' rest r]
      obtain todo' where "bs' = SList ((dn @ [s]) @ todo')" "mirrors_layers branch todo'"
        by blast
      with m show ?thesis by (intro exI[of _ "s # todo'"]) simp
    qed
  qed
next
  case (2 L X state)
  then show ?case by (auto split: sum.splits state.splits)
qed (simp_all add: list_all2_Cons1)


text \<open>
  C2: for a block built by \<open>BlockGen.__init__\<close>, a call of \<open>forward\<close> with the state
  \<open>None\<close> that returns, returns a state container that mirrors the block: one entry per
  branch, each a list with one slot per layer, and so on in the slot of every nested
  block. (\<open>forward\<close> is total here; it returns unless a layer or the merge raises.)
\<close>

theorem forward_None_state_mirrors_graph:
  fixes L :: "('a::comm_ring_1, 's) layers"
  assumes "BlockGen_init c cfgs = Inr b" and "forward L b X SNone = Inr (Y, st)"
  shows "mirrors b st"
  using forward_mirrors(1)[of b SNone L X] BlockGen_init_compiled[OF assms(1)] assms(2) by blast


theorem forward_None_state_mirrors_graph_witness:
  "BlockGen_init 2 [Sub [Gen (Conv 8 3 1), Gen LIF, Sub [Sub [Gen LIF], Sub [Gen Norm]]], Sub [Gen (Conv 8 3 1)]]
     = Inr (BlockGen
        [[Conv2d 2 8 3 1 1, LIFCell, BlockGen [[LIFCell], [BatchNorm2d 8]] [[True], [False]] (Some 8)],
         [Conv2d 2 8 3 1 1]]
        [[False, True, True], [False]] (Some 8)) \<and>
   forward test_layers (BlockGen
        [[Conv2d 2 8 3 1 1, LIFCell, BlockGen [[LIFCell], [BatchNorm2d 8]] [[True], [False]] (Some 8)],
         [Conv2d 2 8 3 1 1]]
        [[False, True, True], [False]] (Some 8))
     (Tensor [1] [5]) SNone
     = Inr (Tensor [1] [15::int], (SList [SList [SNone, SLeaf (0::nat), SList [SList [SLeaf (0::nat)], SList [SNone]]], SList [SNone]])) \<and>
   mirrors (BlockGen
        [[Conv2d 2 8 3 1 1, LIFCell, BlockGen [[LIFCell], [BatchNorm2d 8]] [[True], [False]] (Some 8)],
         [Conv2d 2 8 3 1 1]]
        [[False, True, True], [False]] (Some 8))
     (SList [SList [SNone, SLeaf (0::nat), SList [SList [SLeaf (0::nat)], SList [SNone]]], SList [SNone]])"
proof -
  have h1: "BlockGen_init 2 [Sub [Gen (Conv 8 3 1), Gen LIF, Sub [Sub [Gen LIF], Sub [Gen Norm]]], Sub [Gen (Conv 8 3 1)]]
     = Inr (BlockGen
        [[Conv2d 2 8 3 1 1, LIFCell, BlockGen [[LIFCell], [BatchNorm2d 8]] [[True], [False]] (Some 8)],
         [Conv2d 2 8 3 1 1]]
        [[False, True, True], [False]] (Some 8))"
    by (simp add: BlockGen_init_def ModuleList_def is_Module_def int_half_def)
  have h2: "forward test_layers (BlockGen
        [[Conv2d 2 8 3 1 1, LIFCell, BlockGen [[LIFCell], [BatchNorm2d 8]] [[True], [False]] (Some 8)],
         [Conv2d 2 8 3 1 1]]
        [[False, True, True], [False]] (Some 8))
     (Tensor [1] [5]) SNone
     = Inr (Tensor [1] [15::int], (SList [SList [SNone, SLeaf (0::nat), SList [SList [SLeaf (0::nat)], SList [SNone]]], SList [SNone]]))"
    by (simp add: test_layers_def stack_sum_def same_size_def)
  from forward_None_state_mirrors_graph[OF h1 h2] h1 h2 show ?thesis by blast
qed

subsection \<open>Blocks without a stateful layer\<close>

lemma leaves_absent_update:
  "list_all leaves_absent xs \<Longrightarrow> leaves_absent v \<Longrightarrow> list_all leaves_absent (xs[i := v])"
  by (auto simp: list_all_iff dest!: subsetD[OF set_update_subset_insert])

lemma forward_leaves_absent:
  fixes L :: "('a::comm_ring_1, 's) layers"
  shows
  "\<forall>Y st'. no_lif m \<longrightarrow> leaves_absent st \<longrightarrow>
      forward L m X st = Inr (Y, st') \<longrightarrow> leaves_absent st'"
  "\<forall>out os. list_all (list_all no_lif) nets \<longrightarrow> list_all leaves_absent sts \<longrightarrow>
      forward_branches L nets flags sts X' = Inr (out, os) \<longrightarrow> list_all leaves_absent os"
  "\<forall>Y' bs'. list_all no_lif br \<longrightarrow> leaves_absent bs \<longrightarrow>
      forward_layers L br fl idx Y0 bs = Inr (Y', bs') \<longrightarrow> leaves_absent bs'"
proof (induction L m X st and L nets flags sts X' and L br fl idx Y0 bs
    rule: forward_forward_branches_forward_layers.induct)
  case (1 L nets flags oc X state)
  show ?case
  proof (intro allI impI)
    fix Y st'
    assume n: "no_lif (BlockGen nets flags oc)" and pre: "leaves_absent state"
      and run: "forward L (BlockGen nets flags oc) X state = Inr (Y, st')"
    define st where "st = (case state of SNone \<Rightarrow> replicate (length nets) SNone | SList xs \<Rightarrow> xs)"
    from pre have prep: "(case state of SNone \<Rightarrow> Inr (replicate (length nets) SNone)
            | SList xs \<Rightarrow> Inr xs | SLeaf s \<Rightarrow> Inl TypeError) = (Inr st :: error + 's state list)"
      by (auto simp: st_def split: state.splits)
    from pre have all: "list_all leaves_absent st"
      by (auto simp: st_def list_all_iff split: state.splits)
    from run prep obtain out os where fb: "forward_branches L nets flags st X = Inr (out, os)"
      and st': "st' = SList os"
      by (auto split: sum.splits)
    from "1.IH"[OF prep] n all fb have "list_all leaves_absent os" by auto
    then show "leaves_absent st'" by (simp add: st')
  qed
next
  case (10 L branch nets state_flags flags bstate st X)
  show ?case
  proof (intro allI impI)
    fix out os
    assume n: "list_all (list_all no_lif) (branch # nets)"
      and pre: "list_all leaves_absent (bstate # st)"
      and run: "forward_branches L (branch # nets) (state_flags # flags) (bstate # st) X = Inr (out, os)"
    define bs0 where "bs0 = (case bstate of SNone \<Rightarrow> SList (replicate (length branch) SNone)
              | SLeaf s \<Rightarrow> bstate | SList xs \<Rightarrow> bstate)"
    from pre have la: "leaves_absent bs0"
      by (auto simp: bs0_def list_all_iff split: state.splits)
    from run obtain Y bs' out' os' where fl: "forward_layers L branch state_flags 0 X bs0 = Inr (Y, bs')"
      and fb: "forward_branches L nets flags st X = Inr (out', os')"
      and os: "os = bs' # os'"
      by (auto simp: bs0_def split: sum.splits)
    from "10.IH"(1) n la fl have "leaves_absent bs'"
      unfolding bs0_def by fastforce
    moreover from "10.IH"(2)[OF fl[unfolded bs0_def] refl] n pre fb have "list_all leaves_absent os'"
      by auto
    ultimately show "list_all leaves_absent os" by (simp add: os)
  qed
next
  case (14 L layer branch is_state state_flags idx Y bstate)
  show ?case
  proof (intro allI impI)
    fix Y' bs'
    assume n: "list_all no_lif (layer # branch)"
      and la: "leaves_absent bstate"
      and run: "forward_layers L (layer # branch) (is_state # state_flags) idx Y bstate = Inr (Y', bs')"
    show "leaves_absent bs'"
    proof (cases is_state)
      case True
      from run True obtain s Y1 s' where gi: "getitem bstate idx = Inr s"
        and f: "forward L layer Y s = Inr (Y1, s')"
        and r: "forward_layers L branch state_flags (Suc idx) Y1 (setitem bstate idx s') = Inr (Y', bs')"
        by (auto split: sum.splits)
      from gi obtain xs where xs: "bstate = SList xs" "idx < length xs" "s = xs ! idx"
        by (cases bstate) (auto split: if_splits)
      with la have "leaves_absent s" by (simp add: list_all_length)
      with "14.IH"(1)[OF True gi] n f have m: "leaves_absent s'" by auto
      with la xs have "leaves_absent (setitem bstate idx s')"
        by (simp add: leaves_absent_update)
      with "14.IH"(2)[OF True gi f refl] n r show ?thesis by auto
    next
      case False
      from run False obtain Y1 where f: "call L layer Y = Inr Y1"
        and r: "forward_layers L branch state_flags (Suc idx) Y1 bstate = Inr (Y', bs')"
        by (auto split: sum.splits)
      with "14.IH"(3)[OF False f] n la show ?thesis by auto
    qed
  qed
qed (auto split: sum.splits state.splits)

lemma run_steps_stateless:
  fixes L :: "('a::comm_ring_1, 's) layers"
  assumes "compiled b" and "no_lif b"
  shows "(st = SNone \<or> mirrors b st) \<Longrightarrow> leaves_absent st \<Longrightarrow> run_steps L b Xs st = Inr outs \<Longrightarrow>
     list_all (\<lambda>r. leaves_absent (snd r) \<and> mirrors b (snd r)) outs"
proof (induction Xs arbitrary: st outs)
  case Nil
  then show ?case by simp
next
  case (Cons X Xs)
  from Cons.prems(3) obtain Y st' r where f: "forward L b X st = Inr (Y, st')"
    and rs: "run_steps L b Xs st' = Inr r" and outs: "outs = (Y, st') # r"
    by (auto split: sum.splits)
  from forward_mirrors(1)[of b st L X] assms(1) Cons.prems(1) f have m: "mirrors b st'" by blast
  from forward_leaves_absent(1)[of b st L X] assms(2) Cons.prems(2) f have l: "leaves_absent st'" by blast
  from Cons.IH[OF _ l rs] m have "list_all (\<lambda>r. leaves_absent (snd r) \<and> mirrors b (snd r)) r" by simp
  with m l show ?case by (simp add: outs)
qed


text \<open>
  C8: for a block built by \<open>BlockGen.__init__\<close> in which no layer at any depth is a LIF
  cell, and for any sequence of inputs run from the state \<open>None\<close> with each returned
  container passed to the next call, every returned container has all its leaves
  \<open>None\<close> and is present as a structure: it mirrors the block.
\<close>

theorem stateless_graph_keeps_leaves_absent:
  fixes L :: "('a::comm_ring_1, 's) layers"
  assumes "BlockGen_init c cfgs = Inr b" and "no_lif b" and "run_steps L b Xs SNone = Inr outs"
  shows "list_all (\<lambda>r. leaves_absent (snd r) \<and> mirrors b (snd r)) outs"
  using run_steps_stateless[OF BlockGen_init_compiled[OF assms(1)] assms(2) _ _ assms(3)] by simp


theorem stateless_graph_keeps_leaves_absent_witness:
  "BlockGen_init 2 [Sub [Gen (Conv 8 3 1), Sub [Sub [Gen Return], Sub [Gen Norm]]], Sub [Gen (Conv 8 3 1)]]
     = Inr (BlockGen
        [[Conv2d 2 8 3 1 1, BlockGen [[Storage], [BatchNorm2d 8]] [[False], [False]] (Some 8)],
         [Conv2d 2 8 3 1 1]]
        [[False, True], [False]] (Some 8)) \<and>
   no_lif (BlockGen
        [[Conv2d 2 8 3 1 1, BlockGen [[Storage], [BatchNorm2d 8]] [[False], [False]] (Some 8)],
         [Conv2d 2 8 3 1 1]]
        [[False, True], [False]] (Some 8)) \<and>
   run_steps test_layers (BlockGen
        [[Conv2d 2 8 3 1 1, BlockGen [[Storage], [BatchNorm2d 8]] [[False], [False]] (Some 8)],
         [Conv2d 2 8 3 1 1]]
        [[False, True], [False]] (Some 8))
     [Tensor [1] [5], Tensor [1] [7]] SNone
     = Inr [(Tensor [1] [15::int], (SList [SList [SNone, SList [SList [SNone], SList [SNone]]], SList [SNone :: nat state]])), (Tensor [1] [21::int], (SList [SList [SNone, SList [SList [SNone], SList [SNone]]], SList [SNone :: nat state]]))] \<and>
   list_all (\<lambda>r. leaves_absent (snd r) \<and> mirrors (BlockGen
        [[Conv2d 2 8 3 1 1, BlockGen [[Storage], [BatchNorm2d 8]] [[False], [False]] (Some 8)],
         [Conv2d 2 8 3 1 1]]
        [[False, True], [False]] (Some 8)) (snd r))
     [(Tensor [1] [15::int], (SList [SList [SNone, SList [SList [SNone], SList [SNone]]], SList [SNone :: nat state]])), (Tensor [1] [21::int], (SList [SList [SNone, SList [SList [SNone], SList [SNone]]], SList [SNone :: nat state]]))]"
proof -
  have h1: "BlockGen_init 2 [Sub [Gen (Conv 8 3 1), Sub [Sub [Gen Return], Sub [Gen Norm]]], Sub [Gen (Conv 8 3 1)]]
     = Inr (BlockGen
        [[Conv2d 2 8 3 1 1, BlockGen [[Storage], [BatchNorm2d 8]] [[False], [False]] (Some 8)],
         [Conv2d 2 8 3 1 1]]
        [[False, True], [False]] (Some 8))"
    by (simp add: BlockGen_init_def ModuleList_def is_Module_def int_half_def)
  have h2: "no_lif (BlockGen
        [[Conv2d 2 8 3 1 1, BlockGen [[Storage], [BatchNorm2d 8]] [[False], [False]] (Some 8)],
         [Conv2d 2 8 3 1 1]]
        [[False, True], [False]] (Some 8))"
    by simp
  have h3: "run_steps test_layers (BlockGen
        [[Conv2d 2 8 3 1 1, BlockGen [[Storage], [BatchNorm2d 8]] [[False], [False]] (Some 8)],
         [Conv2d 2 8 3 1 1]]
        [[False, True], [False]] (Some 8))
     [Tensor [1] [5], Tensor [1] [7]] SNone
     = Inr [(Tensor [1] [15::int], (SList [SList [SNone, SList [SList [SNone], SList [SNone]]], SList [SNone :: nat state]])), (Tensor [1] [21::int], (SList [SList [SNone, SList [SList [SNone], SList [SNone]]], SList [SNone :: nat state]]))]"
    by (simp add: test_layers_def stack_sum_def same_size_def)
  from stateless_graph_keeps_leaves_absent[OF h1 h2 h3] h1 h2 h3 show ?thesis by blast
qed

subsection \<open>The order of the branches\<close>

lemma sum_list_map_mset:
  fixes f :: "'b \<Rightarrow> 'a::comm_monoid_add"
  shows "mset xs = mset ys \<Longrightarrow> sum_list (map f xs) = sum_list (map f ys)"
  by (metis mset_map sum_mset_sum_list)

lemma stack_sum_Cons:
  "stack_sum (t # ts) =
     (if \<forall>u\<in>set (t # ts). same_size t u
      then Inr (Tensor (shape t)
             (map (\<lambda>i. sum_list (map (\<lambda>u. data u ! i) (t # ts))) [0..<length (data t)]))
      else Inl RuntimeError)"
  by (auto simp: stack_sum_def list_all_iff same_size_def)

lemma stack_sum_perm:
  fixes xs :: "'a::comm_monoid_add tensor list"
  assumes "mset xs = mset ys"
  shows "stack_sum xs = stack_sum ys"
proof (cases xs)
  case Nil
  with assms show ?thesis by simp
next
  case (Cons t ts)
  with assms obtain t' ts' where ys: "ys = t' # ts'" by (cases ys) auto
  have sets: "set xs = set ys" using assms by (rule mset_eq_setD)
  have t': "t' \<in> set xs" and t: "t \<in> set ys" using sets ys Cons by auto
  show ?thesis
  proof (cases "\<forall>u\<in>set xs. same_size t u")
    case True
    with t' have eqs: "shape t' = shape t" "length (data t') = length (data t)"
      by (auto simp: same_size_def)
    with True sets have all': "\<forall>u\<in>set ys. same_size t' u" by (auto simp: same_size_def)
    have "\<And>i. sum_list (map (\<lambda>u. data u ! i) xs) = sum_list (map (\<lambda>u. data u ! i) ys)"
      using assms by (rule sum_list_map_mset)
    with True all' eqs show ?thesis
      unfolding Cons ys stack_sum_Cons by (simp add: Cons[symmetric] ys[symmetric])
  next
    case False
    have "\<not> (\<forall>u\<in>set ys. same_size t' u)"
    proof
      assume a: "\<forall>u\<in>set ys. same_size t' u"
      with t have "same_size t' t" by blast
      with a sets have "\<forall>u\<in>set xs. same_size t u" by (auto simp: same_size_def)
      with False show False by contradiction
    qed
    with False show ?thesis
      unfolding Cons ys stack_sum_Cons by (simp add: Cons[symmetric] ys[symmetric])
  qed
qed

lemma forward_branches_Cons:
  "forward_branches L (br # nets) (fl # flags) (bs # st) X =
     (case forward_layers L br fl 0 X (prepared br bs) of
        Inl e \<Rightarrow> Inl e
      | Inr (Y, bs') \<Rightarrow>
          (case forward_branches L nets flags st X of
             Inl e \<Rightarrow> Inl e
           | Inr (out, out_state) \<Rightarrow> Inr (Y # out, bs' # out_state)))"
  by (simp add: prepared_def)

lemma forward_branches_nthD:
  assumes "length flags = length nets" and "length st = length nets"
    and "forward_branches L nets flags st X = Inr (out, os)"
  shows "length out = length nets \<and> length os = length nets \<and>
     (\<forall>i<length nets.
        forward_layers L (nets ! i) (flags ! i) 0 X (prepared (nets ! i) (st ! i))
          = Inr (out ! i, os ! i))"
  using assms
proof (induction nets arbitrary: flags st out os)
  case Nil
  then show ?case by auto
next
  case (Cons br nets)
  from Cons.prems obtain fl flags' where flags: "flags = fl # flags'" "length flags' = length nets"
    by (cases flags) auto
  from Cons.prems obtain bs st' where st: "st = bs # st'" "length st' = length nets"
    by (cases st) auto
  from Cons.prems(3) obtain Y b out' os' where
    hd: "forward_layers L br fl 0 X (prepared br bs) = Inr (Y, b)"
    and tl: "forward_branches L nets flags' st' X = Inr (out', os')"
    and res: "out = Y # out'" "os = b # os'"
    unfolding flags st forward_branches_Cons by (auto split: sum.splits)
  from Cons.IH[OF flags(2) st(2) tl] hd show ?case
    by (simp add: flags st res All_less_Suc2)
qed

lemma forward_branches_nthI:
  assumes "length flags = length nets" and "length st = length nets"
    and "length out = length nets" and "length os = length nets"
    and "\<forall>i<length nets.
        forward_layers L (nets ! i) (flags ! i) 0 X (prepared (nets ! i) (st ! i))
          = Inr (out ! i, os ! i)"
  shows "forward_branches L nets flags st X = Inr (out, os)"
  using assms
proof (induction nets arbitrary: flags st out os)
  case Nil
  then show ?case by auto
next
  case (Cons br nets)
  from Cons.prems obtain fl flags' where flags: "flags = fl # flags'" "length flags' = length nets"
    by (cases flags) auto
  from Cons.prems obtain bs st' where st: "st = bs # st'" "length st' = length nets"
    by (cases st) auto
  from Cons.prems obtain Y out' where out: "out = Y # out'" "length out' = length nets"
    by (cases out) auto
  from Cons.prems obtain b os' where os: "os = b # os'" "length os' = length nets"
    by (cases os) auto
  from Cons.prems(5) have
    hd: "forward_layers L br fl 0 X (prepared br bs) = Inr (Y, b)"
    and tl: "\<forall>i<length nets.
        forward_layers L (nets ! i) (flags' ! i) 0 X (prepared (nets ! i) (st' ! i))
          = Inr (out' ! i, os' ! i)"
    by (simp_all add: flags st out os All_less_Suc2)
  from Cons.IH[OF flags(2) st(2) out(2) os(2) tl] hd show ?case
    unfolding flags st out os forward_branches_Cons by simp
qed

lemma perm_facts:
  assumes "mset p = mset [0..<n]"
  shows "set p = {0..<n}" and "length p = n"
  using mset_eq_setD[OF assms] mset_eq_length[OF assms] by auto

lemma mset_permute:
  assumes "mset p = mset [0..<length xs]"
  shows "mset (permute p xs) = mset xs"
proof -
  have "mset (map ((!) xs) p) = mset (map ((!) xs) [0..<length xs])"
    using assms by simp
  then show ?thesis by (simp add: permute_def map_nth)
qed


lemma permute_nth: "i < length p \<Longrightarrow> permute p xs ! i = xs ! (p ! i)"
  by (simp add: permute_def)


text \<open>
  C9: let \<open>p\<close> be a permutation of the branch indices of a configuration that compiles,
  and let the state be \<open>None\<close> or a list with one entry per branch. If \<open>forward\<close> returns
  on the block, then the permuted configuration compiles too, and on its block, with
  the state entries permuted the same way, \<open>forward\<close> returns the same tensor (the
  elements being exact numbers) and the same branch states, in the permuted order.
\<close>

theorem merge_commutes:
  fixes L :: "('a::comm_ring_1, 's) layers"
  assumes perm: "mset p = mset [0..<length cfgs]"
    and comp: "BlockGen_init c cfgs = Inr b"
    and shape: "state = SNone \<or> (\<exists>st. state = SList st \<and> length st = length cfgs)"
    and run: "forward L b X state = Inr (Y, SList os)"
  shows "\<exists>b'. BlockGen_init c (permute p cfgs) = Inr b' \<and>
           forward L b' X (permute_state p state) = Inr (Y, SList (permute p os))"
proof -
  define n where "n = length cfgs"
  note pf = perm_facts[OF perm[folded n_def]]
  have pn: "\<And>i. i < n \<Longrightarrow> p ! i < n" using pf by (metis atLeastLessThan_iff nth_mem)
  from comp obtain rs where rs: "map (make_branch c) cfgs = map Inr rs"
    and b: "b = BlockGen (map fst rs) (map (fst \<circ> snd) rs)
                 (if rs = [] then None else Some (snd (snd (last rs))))"
    unfolding BlockGen_init_def init_loop_char by auto
  define nets where "nets = map fst rs"
  define flags where "flags = map (fst \<circ> snd) rs"
  from rs have lrs: "length rs = n" unfolding n_def by (metis length_map)
  have ln: "length nets = n" "length flags = n" by (simp_all add: nets_def flags_def lrs)
  have "map (make_branch c) (permute p cfgs) = map Inr (permute p rs)"
  proof (rule nth_equalityI)
    show "length (map (make_branch c) (permute p cfgs)) = length (map Inr (permute p rs))"
      by (simp add: permute_def)
  next
    fix i assume "i < length (map (make_branch c) (permute p cfgs))"
    then have i: "i < n" by (simp add: permute_def pf)
    from rs have "map (make_branch c) cfgs ! (p ! i) = map Inr rs ! (p ! i)" by simp
    with pn[OF i] have "make_branch c (cfgs ! (p ! i)) = Inr (rs ! (p ! i))"
      by (simp add: n_def lrs[unfolded n_def])
    with i show "map (make_branch c) (permute p cfgs) ! i = map Inr (permute p rs) ! i"
      by (simp add: permute_def pf)
  qed
  then have comp': "BlockGen_init c (permute p cfgs) =
      Inr (BlockGen (map fst (permute p rs)) (map (fst \<circ> snd) (permute p rs))
             (if permute p rs = [] then None else Some (snd (snd (last (permute p rs))))))"
    unfolding BlockGen_init_def init_loop_char by auto
  have nets': "map fst (permute p rs) = permute p nets"
    and flags': "map (fst \<circ> snd) (permute p rs) = permute p flags"
    using pn pf by (auto simp: permute_def nets_def flags_def lrs set_conv_nth)
  define eff where "eff = (case state of SNone \<Rightarrow> replicate n SNone | SList xs \<Rightarrow> xs)"
  from shape have le: "length eff = n" by (auto simp: eff_def n_def)
  from shape have prep: "(case state of SNone \<Rightarrow> Inr (replicate (length nets) SNone)
            | SList xs \<Rightarrow> Inr xs | SLeaf s \<Rightarrow> Inl TypeError) = (Inr eff :: error + 's state list)"
    by (auto simp: eff_def ln)
  have prep': "(case permute_state p state of SNone \<Rightarrow> Inr (replicate (length (permute p nets)) SNone)
            | SList xs \<Rightarrow> Inr xs | SLeaf s \<Rightarrow> Inl TypeError) = (Inr (permute p eff) :: error + 's state list)"
    using shape pn pf
    by (auto simp: eff_def permute_def ln set_conv_nth intro!: nth_equalityI)
  from run obtain out where fb: "forward_branches L nets flags eff X = Inr (out, os)"
    and ss: "stack_sum out = Inr Y"
    unfolding b nets_def[symmetric] flags_def[symmetric] forward.simps prep
    by (auto split: sum.splits)
  from forward_branches_nthD[OF _ _ fb] ln le
  have lo: "length out = n" "length os = n"
    and each: "\<forall>i<n. forward_layers L (nets ! i) (flags ! i) 0 X (prepared (nets ! i) (eff ! i))
          = Inr (out ! i, os ! i)" by auto
  have "forward_branches L (permute p nets) (permute p flags) (permute p eff) X
          = Inr (permute p out, permute p os)"
  proof (rule forward_branches_nthI)
    show "\<forall>i<length (permute p nets).
       forward_layers L (permute p nets ! i) (permute p flags ! i) 0 X
        (prepared (permute p nets ! i) (permute p eff ! i)) =
       Inr (permute p out ! i, permute p os ! i)"
      using each pn by (simp add: permute_def pf)
  qed (simp_all add: permute_def)
  moreover have "stack_sum (permute p out) = Inr Y"
    using stack_sum_perm[OF mset_permute[of p out]] perm ss by (simp add: lo n_def)
  ultimately have "forward L (BlockGen (permute p nets) (permute p flags)
       (if permute p rs = [] then None else Some (snd (snd (last (permute p rs))))))
       X (permute_state p state) = Inr (Y, SList (permute p os))"
    unfolding forward.simps prep' by simp
  with comp' show ?thesis unfolding nets' flags' by blast
qed

theorem merge_commutes_witness:
  "mset [1, 0] = mset [0..<length [Sub [Gen LIF], Sub [Gen (Conv 2 3 1)]]] \<and>
   BlockGen_init 2 [Sub [Gen LIF], Sub [Gen (Conv 2 3 1)]] = Inr (BlockGen [[LIFCell], [Conv2d 2 2 3 1 1]] [[True], [False]] (Some 2)) \<and>
   ((SList [SList [SLeaf (4::nat)], SNone]) = SNone \<or>
     (\<exists>st. (SList [SList [SLeaf (4::nat)], SNone]) = SList st \<and> length st = length [Sub [Gen LIF], Sub [Gen (Conv 2 3 1)]])) \<and>
   forward test_layers (BlockGen [[LIFCell], [Conv2d 2 2 3 1 1]] [[True], [False]] (Some 2)) (Tensor [1] [5]) (SList [SList [SLeaf (4::nat)], SNone])
     = Inr (Tensor [1] [10], SList [SList [SLeaf (5::nat)], SList [SNone]]) \<and>
   (\<exists>b'. BlockGen_init 2 (permute [1, 0] [Sub [Gen LIF], Sub [Gen (Conv 2 3 1)]]) = Inr b' \<and>
      forward test_layers b' (Tensor [1] [5]) (permute_state [1, 0] (SList [SList [SLeaf (4::nat)], SNone]))
        = Inr (Tensor [1] [10], SList (permute [1, 0] [SList [SLeaf (5::nat)], SList [SNone]])))"
proof -
  have h1: "mset [1, 0] = mset [0..<length [Sub [Gen LIF], Sub [Gen (Conv 2 3 1)]]]"
    by (simp add: upt_rec)
  have h2: "BlockGen_init 2 [Sub [Gen LIF], Sub [Gen (Conv 2 3 1)]] = Inr (BlockGen [[LIFCell], [Conv2d 2 2 3 1 1]] [[True], [False]] (Some 2))"
    by (simp add: BlockGen_init_def ModuleList_def is_Module_def int_half_def)
  have h3: "(SList [SList [SLeaf (4::nat)], SNone]) = SNone \<or>
     (\<exists>st. (SList [SList [SLeaf (4::nat)], SNone]) = SList st \<and> length st = length [Sub [Gen LIF], Sub [Gen (Conv 2 3 1)]])"
    by simp
  have h4: "forward test_layers (BlockGen [[LIFCell], [Conv2d 2 2 3 1 1]] [[True], [False]] (Some 2)) (Tensor [1] [5]) (SList [SList [SLeaf (4::nat)], SNone])
     = Inr (Tensor [1] [10], SList [SList [SLeaf (5::nat)], SList [SNone]])"
    by (simp add: test_layers_def stack_sum_def same_size_def)
  from merge_commutes[OF h1 h2 h3 h4] h1 h2 h3 h4 show ?thesis by blast
qed

subsection \<open>A state container of another shape\<close>

lemma forward_branches_take:
  "forward_branches L nets flags st X =
   forward_branches L (take (length st) nets) (take (length st) flags) st X"
proof (induction st arbitrary: nets flags)
  case Nil
  show ?case by (cases nets; cases flags) simp_all
next
  case (Cons bs st)
  show ?case
  proof (cases nets)
    case Nil
    then show ?thesis by simp
  next
    case n: (Cons br nets')
    show ?thesis
    proof (cases flags)
      case Nil
      then show ?thesis by (simp add: n)
    next
      case f: (Cons fl flags')
      show ?thesis
        unfolding n f forward_branches_Cons length_Cons take_Suc_Cons
        by (simp only: Cons.IH[of nets' flags', symmetric])
    qed
  qed
qed

lemma forward_branches_take_state:
  "forward_branches L nets flags st X = forward_branches L nets flags (take (length nets) st) X"
proof (induction nets arbitrary: flags st)
  case Nil
  show ?case by simp
next
  case (Cons br nets)
  show ?case
  proof (cases flags)
    case Nil
    then show ?thesis by simp
  next
    case f: (Cons fl flags')
    show ?thesis
    proof (cases st)
      case Nil
      then show ?thesis by simp
    next
      case s: (Cons bs st')
      show ?thesis
        unfolding f s forward_branches_Cons length_Cons take_Suc_Cons
        by (simp only: Cons.IH[of flags' st', symmetric])
    qed
  qed
qed

lemma forward_branches_lengths:
  "forward_branches L nets flags st X = Inr (out, os) \<Longrightarrow>
   length out = min (length nets) (min (length flags) (length st)) \<and> length os = length out"
proof (induction nets arbitrary: flags st out os)
  case Nil
  then show ?case by simp
next
  case (Cons br nets)
  show ?case
  proof (cases flags)
    case Nil
    with Cons.prems show ?thesis by simp
  next
    case f: (Cons fl flags')
    show ?thesis
    proof (cases st)
      case Nil
      with Cons.prems f show ?thesis by simp
    next
      case s: (Cons bs st')
      from Cons.prems[unfolded f s forward_branches_Cons] obtain Y bs' out' os' where
        r: "forward_branches L nets flags' st' X = Inr (out', os')"
        and o: "out = Y # out'" "os = bs' # os'"
        by (auto split: sum.splits)
      from Cons.IH[OF r] o show ?thesis by (simp add: f s)
    qed
  qed
qed

text \<open>
  C4, as the code has it: \<open>forward\<close> checks no shape. The branches and the entries of
  the state list are paired by \<open>zip\<close>, up to the shorter of the two. A call with a state
  list of \<open>k\<close> entries is the call of the block cut to its first \<open>k\<close> branches, value or
  error alike, and entries past the number of branches are not looked at; when the loop
  over the branches returns, it has run as many branches as the shortest of the three
  sequences has elements. Nothing is raised for the missing entries themselves: with no
  entry at all the merge of no outputs raises the \<open>RuntimeError\<close> of \<open>torch.stack\<close>, which
  names no position, and with one entry or more the other branches are left out of the
  merge. A branch entry is indexed at stateful positions only: a stateful position at or
  past the end of its entry raises a plain \<open>IndexError\<close>, which names no position, and a
  position that is not stateful goes on without looking at the entry.
\<close>

theorem forward_pairs_state_by_zip:
  "forward L (BlockGen nets flags oc) X (SList st) =
     forward L (BlockGen (take (length st) nets) (take (length st) flags) oc) X (SList st)
   \<and> forward L (BlockGen nets flags oc) X (SList st) =
       forward L (BlockGen nets flags oc) X (SList (take (length nets) st))
   \<and> forward L (BlockGen nets flags oc) X (SList []) = Inl RuntimeError
   \<and> (forward_branches L nets flags st X = Inr (out, os) \<longrightarrow>
        length out = min (length nets) (min (length flags) (length st)) \<and>
        length os = length out)
   \<and> (length slots \<le> idx \<longrightarrow>
        forward_layers L (layer # branch) (True # fs) idx Y (SList slots) = Inl IndexError)
   \<and> forward_layers L (layer' # branch') (False # fs') idx' Y' bs =
       (case call L layer' Y' of
          Inl e \<Rightarrow> Inl e
        | Inr Z \<Rightarrow> forward_layers L branch' fs' (Suc idx') Z bs)"
proof -
  have e: "forward_branches L nets flags [] X = Inr ([], [])"
    by (cases nets; cases flags) simp_all
  have "forward L (BlockGen nets flags oc) X (SList []) = Inl RuntimeError"
    by (simp add: e stack_sum_def)
  moreover have "forward L (BlockGen nets flags oc) X (SList st) =
     forward L (BlockGen (take (length st) nets) (take (length st) flags) oc) X (SList st)"
    using forward_branches_take[of L nets flags st X] by simp
  moreover have "forward L (BlockGen nets flags oc) X (SList st) =
       forward L (BlockGen nets flags oc) X (SList (take (length nets) st))"
    using forward_branches_take_state[of L nets flags st X] by simp
  moreover have "forward_branches L nets flags st X = Inr (out, os) \<longrightarrow>
        length out = min (length nets) (min (length flags) (length st)) \<and>
        length os = length out"
    using forward_branches_lengths[of L nets flags st X out os] by blast
  ultimately show ?thesis by simp
qed

theorem forward_pairs_state_by_zip_witness:
  "forward test_layers (BlockGen [[Storage], [LIFCell]] [[False], [True]] (Some 2))
       (Tensor [1] [5]) (SList [SNone]) =
     forward test_layers (BlockGen (take (length [SNone :: nat state]) [[Storage], [LIFCell]])
       (take (length [SNone :: nat state]) [[False], [True]]) (Some 2)) (Tensor [1] [5]) (SList [SNone])
   \<and> forward test_layers (BlockGen [[Storage], [LIFCell]] [[False], [True]] (Some 2))
       (Tensor [1] [5]) (SList [SNone]) = Inr (Tensor [1] [5], SList [SList [SNone]])
   \<and> forward test_layers (BlockGen [[Storage], [LIFCell]] [[False], [True]] (Some 2))
       (Tensor [1] [5]) (SList []) = Inl RuntimeError
   \<and> forward_branches test_layers [[Storage], [LIFCell]] [[False], [True]] [SNone] (Tensor [1] [5])
       = Inr ([Tensor [1] [5]], [SList [SNone]])
   \<and> length [Tensor [1] [5::int]] =
       min (length [[Storage], [LIFCell]]) (min (length [[False], [True]]) (length [SNone :: nat state]))
   \<and> length ([] :: nat state list) \<le> 0
   \<and> forward_layers test_layers [LIFCell] [True] 0 (Tensor [1] [5]) (SList []) = Inl IndexError
   \<and> forward_layers test_layers [Storage] [False] 0 (Tensor [1] [5]) (SList []) =
       (case call test_layers Storage (Tensor [1] [5]) of
          Inl e \<Rightarrow> Inl e
        | Inr Z \<Rightarrow> forward_layers test_layers [] [] (Suc 0) Z (SList []))"
proof -
  have fb: "forward_branches test_layers [[Storage], [LIFCell]] [[False], [True]] [SNone]
              (Tensor [1] [5]) = Inr ([Tensor [1] [5]], [SList [SNone]])"
    by (simp add: test_layers_def)
  have fw: "forward test_layers (BlockGen [[Storage], [LIFCell]] [[False], [True]] (Some 2))
       (Tensor [1] [5]) (SList [SNone]) = Inr (Tensor [1] [5], SList [SList [SNone]])"
    by (simp add: test_layers_def stack_sum_def)
  from forward_pairs_state_by_zip
    [where L = test_layers and nets = "[[Storage], [LIFCell]]" and flags = "[[False], [True]]"
       and oc = "Some 2" and X = "Tensor [1] [5]" and st = "[SNone]" and slots = "[]"
       and out = "[Tensor [1] [5]]" and os = "[SList [SNone]]"
       and idx = 0 and layer = LIFCell and branch = "[]" and fs = "[]" and Y = "Tensor [1] [5]"
       and layer' = Storage and branch' = "[]" and fs' = "[]" and idx' = 0
       and Y' = "Tensor [1] [5]" and bs = "SList []"] fb fw
  show ?thesis by simp
qed

text \<open>
  C4, as the claim states it, fails: a block of two branches of one layer each, called
  with a state list of one entry, itself an empty list, returns the output of the first
  branch and that one-entry container; nothing is raised for the missing branch entry or
  for the short one.
\<close>

theorem forward_short_state_counterexample:
  "BlockGen_init 2 [Sub [Gen Return], Sub [Gen Return]] =
     Inr (BlockGen [[Storage], [Storage]] [[False], [False]] (Some 2)) \<and>
   forward test_layers (BlockGen [[Storage], [Storage]] [[False], [False]] (Some 2))
     (Tensor [1] [5]) (SList [SList []]) = Inr (Tensor [1] [5], SList [SList []])"
  by (simp add: BlockGen_init_def ModuleList_def is_Module_def test_layers_def stack_sum_def)

subsection \<open>The store grows, and a block without a mask bit writes to no list\<close>

lemma store_grows:
  fixes L :: "('a::comm_ring_1, 's) layers"
  shows
  "\<forall>Y v h'. forward_h L m X state h = Inr (Y, v, h') \<longrightarrow> length h \<le> length h'"
  "\<forall>out h'. forward_branches_h L nets flags sr k X' os h1 = Inr (out, h') \<longrightarrow> length h1 \<le> length h'"
  "\<forall>Y' h'. forward_layers_h L br fl idx Y0 bstate h2 = Inr (Y', h') \<longrightarrow> length h2 \<le> length h'"
proof (induction L m X state h and L nets flags sr k X' os h1 and L br fl idx Y0 bstate h2
    rule: forward_h_forward_branches_h_forward_layers_h.induct)
  case (1 L nets flags oc X state h)
  show ?case
  proof (intro allI impI)
    fix Y v h'
    assume run: "forward_h L (BlockGen nets flags oc) X state h = Inr (Y, v, h')"
    then obtain sr h1 out where
      prep: "(case state of
              VNone \<Rightarrow> Inr (Suc (length h), h @ [[], replicate (length nets) VNone])
            | VRef a \<Rightarrow> if a < length h then Inr (a, h @ [[]]) else Inl TypeError
            | VLeaf s \<Rightarrow> Inl TypeError) = Inr (sr, h1)"
      and fb: "forward_branches_h L nets flags sr 0 X (length h) h1 = Inr (out, h')"
      by (auto split: sum.splits)
    from prep have "length h \<le> length h1" by (auto split: pyval.splits if_splits)
    moreover from "1.IH"[OF prep refl] fb have "length h1 \<le> length h'" by blast
    ultimately show "length h \<le> length h'" by simp
  qed
next
  case (2 L X state h)
  then show ?case by (auto split: sum.splits pyval.splits)
next
  case (10 L branch nets state_flags flags state_ref k X out_state h)
  show ?case
  proof (intro allI impI)
    fix out h'
    assume run: "forward_branches_h L (branch # nets) (state_flags # flags) state_ref k X out_state h
                   = Inr (out, h')"
    show "length h \<le> length h'"
    proof (cases "k < length (h ! state_ref)")
      case False
      with run show ?thesis by simp
    next
      case True
      obtain bstate h1 where prep: "(case h ! state_ref ! k of
                 VNone \<Rightarrow> (VRef (length h), h @ [replicate (length branch) VNone])
               | VLeaf s \<Rightarrow> (VLeaf s, h)
               | VRef r \<Rightarrow> (VRef r, h)) = (bstate, h1)" by fastforce
      from run True prep obtain Y h2 out' where
        fl: "forward_layers_h L branch state_flags 0 X bstate h1 = Inr (Y, h2)"
        and fb: "forward_branches_h L nets flags state_ref (Suc k) X out_state
                   (h2[out_state := h2 ! out_state @ [bstate]]) = Inr (out', h')"
        by (auto split: sum.splits)
      from prep have "length h \<le> length h1" by (auto split: pyval.splits)
      moreover from "10.IH"(1)[OF True prep[symmetric]] fl have "length h1 \<le> length h2" by blast
      moreover from "10.IH"(2)[OF True prep[symmetric] fl refl] fb have "length h2 \<le> length h'"
        by fastforce
      ultimately show ?thesis by simp
    qed
  qed
next
  case (13 L layer branch is_state state_flags idx Y bstate h)
  show ?case
  proof (intro allI impI)
    fix Y' h'
    assume run: "forward_layers_h L (layer # branch) (is_state # state_flags) idx Y bstate h = Inr (Y', h')"
    show "length h \<le> length h'"
    proof (cases is_state)
      case True
      from run True obtain r where b: "bstate = VRef r" by (cases bstate) auto
      from run True b have ok: "r < length h \<and> idx < length (h ! r)" by (auto split: if_splits)
      from run True b ok obtain Y1 s' h1 where
        f: "forward_h L layer Y (h ! r ! idx) h = Inr (Y1, s', h1)"
        and ok': "idx < length (h1 ! r)"
        and r: "forward_layers_h L branch state_flags (Suc idx) Y1 bstate
                        (h1[r := (h1 ! r)[idx := s']]) = Inr (Y', h')"
        by (auto split: sum.splits if_splits)
      from "13.IH"(1)[OF True b ok] f have "length h \<le> length h1" by blast
      moreover from "13.IH"(2)[OF True b ok f refl refl ok'] r b
      have "length h1 \<le> length h'" by fastforce
      ultimately show ?thesis by simp
    next
      case False
      from run False obtain Y1 where f: "call L layer Y = Inr Y1"
        and r: "forward_layers_h L branch state_flags (Suc idx) Y1 bstate h = Inr (Y', h')"
        by (auto split: sum.splits)
      with "13.IH"(3)[OF False f] show ?thesis by blast
    qed
  qed
qed simp_all

lemma layers_h_no_flags:
  "list_all Not fs \<Longrightarrow> forward_layers_h L br fs idx Y bstate h = Inr (Y', h') \<Longrightarrow> h' = h"
proof (induction br arbitrary: fs idx Y)
  case Nil
  then show ?case by simp
next
  case (Cons l br)
  then show ?case by (cases fs) (auto split: sum.splits)
qed

lemma branches_h_no_flags:
  "list_all (list_all Not) flags \<Longrightarrow>
   forward_branches_h L nets flags sr k X os h = Inr (out, h') \<Longrightarrow>
   length h \<le> length h' \<and> (\<forall>a<length h. a \<noteq> os \<longrightarrow> h' ! a = h ! a)"
proof (induction nets arbitrary: flags k h out)
  case Nil
  then show ?case by simp
next
  case (Cons branch nets)
  show ?case
  proof (cases flags)
    case Nil
    with Cons.prems show ?thesis by simp
  next
    case fl: (Cons state_flags flags')
    show ?thesis
    proof (cases "k < length (h ! sr)")
      case False
      with Cons.prems fl show ?thesis by simp
    next
      case True
      obtain bstate h1 where prep: "(case h ! sr ! k of
                 VNone \<Rightarrow> (VRef (length h), h @ [replicate (length branch) VNone])
               | VLeaf s \<Rightarrow> (VLeaf s, h)
               | VRef r \<Rightarrow> (VRef r, h)) = (bstate, h1)" by fastforce
      from Cons.prems(2) True prep obtain Y h2 out' where
        l: "forward_layers_h L branch state_flags 0 X bstate h1 = Inr (Y, h2)"
        and b: "forward_branches_h L nets flags' sr (Suc k) X os
                   (h2[os := h2 ! os @ [bstate]]) = Inr (out', h')"
        unfolding fl by (auto split: sum.splits)
      from Cons.prems(1) fl have nf: "list_all Not state_flags" "list_all (list_all Not) flags'"
        by simp_all
      from layers_h_no_flags[OF nf(1) l] have h2: "h2 = h1" .
      from prep have h1: "length h \<le> length h1" "\<forall>a<length h. h1 ! a = h ! a"
        by (auto split: pyval.splits simp: nth_append)
      from Cons.IH[OF nf(2) b] have
        "length h1 \<le> length h'" "\<forall>a<length h1. a \<noteq> os \<longrightarrow> h' ! a = h1 ! a"
        by (simp_all add: h2)
      with h1 show ?thesis by auto
    qed
  qed
qed


subsection \<open>\<open>forward\<close> on values and \<open>forward\<close> on the store\<close>

text \<open>
  \<open>forward\<close> treats a state container as a value, although the code updates the lists of
  the caller in place. On a container whose lists are reached once only the two agree:
  the code on the store raises the error \<open>forward\<close> raises, or returns the output of
  \<open>forward\<close> and the address of a list that stands for the container \<open>forward\<close> returns,
  and it leaves every list outside the container as it was.
\<close>

lemma repr_bound:
  "repr h v s A \<Longrightarrow> A \<subseteq> {..<length h}"
  "reprs h vs ss B \<Longrightarrow> B \<subseteq> {..<length h}"
  by (induction rule: repr_reprs.inducts) auto

lemma reprs_length: "reprs h vs ss B \<Longrightarrow> length vs = length ss"
  by (induction vs arbitrary: ss B) (auto elim: reprs_Nil2E reprs_Cons2E)

lemma repr_frame:
  "repr h v s A \<Longrightarrow> (\<And>h'. length h \<le> length h' \<Longrightarrow> (\<forall>a\<in>A. h' ! a = h ! a) \<Longrightarrow> repr h' v s A)"
  "reprs h vs ss B \<Longrightarrow> (\<And>h'. length h \<le> length h' \<Longrightarrow> (\<forall>a\<in>B. h' ! a = h ! a) \<Longrightarrow> reprs h' vs ss B)"
proof (induction rule: repr_reprs.inducts)
  case (repr_Ref a h xs A)
  from repr_Ref.prems have "h' ! a = h ! a" by simp
  moreover from repr_Ref.IH[of h'] repr_Ref.prems have "reprs h' (h ! a) xs A" by simp
  ultimately show ?case using repr_Ref.hyps repr_Ref.prems
    by (auto intro!: repr_reprs.intros)
qed (auto intro!: repr_reprs.intros)

lemma reprs_replicate: "reprs h (replicate n VNone) (replicate n SNone) {}"
proof (induction n)
  case 0
  show ?case by (simp add: reprs_Nil)
next
  case (Suc n)
  from reprs_Cons[OF repr_None Suc] show ?case by simp
qed

lemma reprs_snoc:
  "reprs h vs ss A \<Longrightarrow> repr h v s B \<Longrightarrow> A \<inter> B = {} \<Longrightarrow> reprs h (vs @ [v]) (ss @ [s]) (A \<union> B)"
proof (induction vs arbitrary: ss A)
  case Nil
  then have "ss = []" "A = {}" by (auto elim: reprs_Nil2E)
  with reprs_Cons[OF Nil(2) reprs_Nil] show ?case by simp
next
  case (Cons v0 vs)
  from Cons.prems(1) obtain s0 ss' A0 A1 where ss: "ss = s0 # ss'" and A: "A = A0 \<union> A1"
    and r0: "repr h v0 s0 A0" and r1: "reprs h vs ss' A1" and d: "A0 \<inter> A1 = {}"
    by (auto elim: reprs_Cons2E)
  from Cons.IH[OF r1 Cons.prems(2)] Cons.prems(3) A have "reprs h (vs @ [v]) (ss' @ [s]) (A1 \<union> B)"
    by auto
  moreover have "A0 \<inter> (A1 \<union> B) = {}" using d Cons.prems(3) A by auto
  ultimately have "reprs h (v0 # (vs @ [v])) (s0 # (ss' @ [s])) (A0 \<union> (A1 \<union> B))"
    using r0 by (intro reprs_Cons)
  then show ?case by (simp add: ss A Un_assoc)
qed

lemma reprs_nth:
  assumes "reprs h vs ss B" and "i < length vs"
  shows "\<exists>A C. repr h (vs ! i) (ss ! i) A \<and> A \<inter> C = {} \<and> B = A \<union> C \<and>
     (\<forall>h' v' s' A'. repr h' v' s' A' \<longrightarrow> A' \<inter> C = {} \<longrightarrow> length h \<le> length h' \<longrightarrow>
        (\<forall>a\<in>C. h' ! a = h ! a) \<longrightarrow> reprs h' (vs[i := v']) (ss[i := s']) (A' \<union> C))"
  using assms
proof (induction vs arbitrary: ss B i)
  case Nil
  then show ?case by simp
next
  case (Cons v0 vs)
  from Cons.prems(1) obtain s0 ss' A0 A1 where ss: "ss = s0 # ss'" and B: "B = A0 \<union> A1"
    and r0: "repr h v0 s0 A0" and r1: "reprs h vs ss' A1" and d: "A0 \<inter> A1 = {}"
    by (auto elim: reprs_Cons2E)
  show ?case
  proof (cases i)
    case 0
    have "\<forall>h' v' s' A'. repr h' v' s' A' \<longrightarrow> A' \<inter> A1 = {} \<longrightarrow> length h \<le> length h' \<longrightarrow>
        (\<forall>a\<in>A1. h' ! a = h ! a) \<longrightarrow> reprs h' ((v0 # vs)[0 := v']) ((s0 # ss')[0 := s']) (A' \<union> A1)"
      using repr_frame(2)[OF r1] by (auto intro!: reprs_Cons)
    with r0 d B show ?thesis unfolding 0 ss by (intro exI[of _ A0] exI[of _ A1]) simp
  next
    case (Suc j)
    with Cons.prems(2) have j: "j < length vs" by simp
    from Cons.IH[OF r1 j] obtain A C where
      rj: "repr h (vs ! j) (ss' ! j) A" and dj: "A \<inter> C = {}" and A1: "A1 = A \<union> C"
      and upd: "\<forall>h' v' s' A'. repr h' v' s' A' \<longrightarrow> A' \<inter> C = {} \<longrightarrow> length h \<le> length h' \<longrightarrow>
        (\<forall>a\<in>C. h' ! a = h ! a) \<longrightarrow> reprs h' (vs[j := v']) (ss'[j := s']) (A' \<union> C)"
      by blast
    have "\<forall>h' v' s' A'. repr h' v' s' A' \<longrightarrow> A' \<inter> (A0 \<union> C) = {} \<longrightarrow> length h \<le> length h' \<longrightarrow>
        (\<forall>a\<in>A0 \<union> C. h' ! a = h ! a) \<longrightarrow>
        reprs h' ((v0 # vs)[Suc j := v']) ((s0 # ss')[Suc j := s']) (A' \<union> (A0 \<union> C))"
    proof (intro allI impI)
      fix h' v' s' A'
      assume r: "repr h' v' s' A'" and dd: "A' \<inter> (A0 \<union> C) = {}" and l: "length h \<le> length h'"
        and f: "\<forall>a\<in>A0 \<union> C. h' ! a = h ! a"
      have "A' \<inter> C = {}" "\<forall>a\<in>C. h' ! a = h ! a" using dd f by auto
      with upd[rule_format, OF r _ l] have t: "reprs h' (vs[j := v']) (ss'[j := s']) (A' \<union> C)"
        by blast
      from repr_frame(1)[OF r0 l] f have h0: "repr h' v0 s0 A0" by auto
      from d A1 dd have "A0 \<inter> (A' \<union> C) = {}" by auto
      from reprs_Cons[OF h0 t this]
      show "reprs h' ((v0 # vs)[Suc j := v']) ((s0 # ss')[Suc j := s']) (A' \<union> (A0 \<union> C))"
        by (simp add: Un_left_commute)
    qed
    moreover have "A \<inter> (A0 \<union> C) = {}" using d dj A1 by auto
    moreover have "B = A \<union> (A0 \<union> C)" using B A1 by auto
    ultimately show ?thesis using rj unfolding Suc ss
      by (intro exI[of _ A] exI[of _ "A0 \<union> C"]) simp
  qed
qed

lemma fresh_disjoint:
  "A' \<subseteq> A \<union> {n..<m} \<Longrightarrow> C \<subseteq> {..<n::nat} \<Longrightarrow> A \<inter> C = {} \<Longrightarrow> A' \<inter> C = {}"
  by fastforce

lemma fresh_notin:
  "A' \<subseteq> A \<union> {n..<m} \<Longrightarrow> a < (n::nat) \<Longrightarrow> a \<notin> A \<Longrightarrow> a \<notin> A'"
  by fastforce

lemma fresh_trans:
  "A'' \<subseteq> A' \<union> {m..<k} \<Longrightarrow> A' \<subseteq> A \<union> {n..<m} \<Longrightarrow> n \<le> m \<Longrightarrow> m \<le> k
   \<Longrightarrow> A'' \<subseteq> A \<union> {n..<k::nat}"
  by fastforce

lemma reused_mono: "reused n v v' \<Longrightarrow> m \<le> n \<Longrightarrow> reused m v v'"
  by (cases v; cases v') simp_all

lemma frame_refl: "A \<subseteq> {..<length h} \<Longrightarrow> frame h A h A"
  by (auto simp: frame_def)

lemma sim_layers_step_stateless:
  assumes "sim_layers h A bv r rh"
  shows "sim_layers h A bv
           (case Inr Y1 of Inl e \<Rightarrow> Inl e | Inr Y' \<Rightarrow> r)
           (case Inr Y1 of Inl e \<Rightarrow> Inl e | Inr Y' \<Rightarrow> rh)"
  using assms by simp

lemma value_model_sim:
  fixes L :: "('a::comm_ring_1, 's) layers"
  shows
  "\<forall>h v A. repr h v st A \<longrightarrow> sim_forward h A (forward L m X st) (forward_h L m X v h)"
  "\<forall>h sr k osr pre vs A. sr < length h \<longrightarrow> osr < length h \<longrightarrow> osr \<noteq> sr \<longrightarrow>
      h ! sr = pre @ vs \<longrightarrow> length pre = k \<longrightarrow> reprs h vs sts A \<longrightarrow> sr \<notin> A \<longrightarrow> osr \<notin> A \<longrightarrow>
      sim_branches h A osr vs (forward_branches L nets flags sts X')
        (forward_branches_h L nets flags sr k X' osr h)"
  "\<forall>h bv A. repr h bv bs A \<longrightarrow>
      sim_layers h A bv (forward_layers L br fl idx Y0 bs) (forward_layers_h L br fl idx Y0 bv h)"
proof (induction L m X st and L nets flags sts X' and L br fl idx Y0 bs
    rule: forward_forward_branches_forward_layers.induct)
  case (14 L layer branch is_state state_flags idx Y bstate)
  show ?case
  proof (intro allI impI)
    fix h bv A
    assume r: "repr h bv bstate A"
    show "sim_layers h A bv (forward_layers L (layer # branch) (is_state # state_flags) idx Y bstate)
           (forward_layers_h L (layer # branch) (is_state # state_flags) idx Y bv h)"
    proof (cases is_state)
      case False
      show ?thesis
      proof (cases "call L layer Y")
        case (Inl e)
        with False show ?thesis by (simp add: sim_layers_def)
      next
        case (Inr Y1)
        from "14.IH"(3)[OF False Inr] r show ?thesis using False Inr by simp
      qed
    next
      case True
      show ?thesis
      proof (cases "getitem bstate idx")
        case (Inl e)
        then show ?thesis using True r
          by (cases bstate)
             (auto simp: sim_layers_def elim!: repr_NoneE repr_LeafE repr_ListE
                   dest: reprs_length split: if_splits)
      next
        case gi: (Inr s)
        then obtain xs where bs: "bstate = SList xs" and idx: "idx < length xs" and s: "s = xs ! idx"
          by (cases bstate) (auto split: if_splits)
        from r bs obtain a B where bv: "bv = VRef a" and a: "a < length h"
          and rs: "reprs h (h ! a) xs B" and A: "A = insert a B" and aB: "a \<notin> B"
          by (auto elim: repr_ListE)
        from reprs_length[OF rs] idx have idx': "idx < length (h ! a)" by simp
        from reprs_nth[OF rs idx'] obtain Ai C where
          ri: "repr h (h ! a ! idx) (xs ! idx) Ai" and dC: "Ai \<inter> C = {}" and B: "B = Ai \<union> C"
          and upd: "\<forall>h' v' s' A'. repr h' v' s' A' \<longrightarrow> A' \<inter> C = {} \<longrightarrow> length h \<le> length h' \<longrightarrow>
             (\<forall>a\<in>C. h' ! a = h ! a) \<longrightarrow> reprs h' ((h ! a)[idx := v']) (xs[idx := s']) (A' \<union> C)"
          by blast
        from "14.IH"(1)[OF True gi] ri s
        have sf: "sim_forward h Ai (forward L layer Y s) (forward_h L layer Y (h ! a ! idx) h)"
          by blast
        show ?thesis
        proof (cases "forward L layer Y s")
          case (Inl e)
          with sf True gi bv a idx' show ?thesis by (simp add: sim_forward_def sim_layers_def)
        next
          case f: (Inr p)
          obtain Y1 s' where p: "p = (Y1, s')" by (cases p)
          from sf f p obtain v' h1 Ai' where
            fh: "forward_h L layer Y (h ! a ! idx) h = Inr (Y1, v', h1)"
            and r1: "repr h1 v' s' Ai'" and fr: "frame h Ai h1 Ai'"
            by (auto simp: sim_forward_def)
          from repr_bound(2)[OF rs] B have Cb: "C \<subseteq> {..<length h}" "Ai \<subseteq> {..<length h}" by auto
          from fr have l1: "length h \<le> length h1" and sub1: "Ai' \<subseteq> Ai \<union> {length h..<length h1}"
            and same1: "\<forall>b<length h. b \<notin> Ai \<longrightarrow> h1 ! b = h ! b" by (auto simp: frame_def)
          from aB B have aAi: "a \<notin> Ai" "a \<notin> C" by auto
          with same1 a have h1a: "h1 ! a = h ! a" by simp
          define h2 where "h2 = h1[a := (h1 ! a)[idx := v']]"
          have l2: "length h2 = length h1" by (simp add: h2_def)
          have aAi': "a \<notin> Ai'" using fresh_notin[OF sub1 a aAi(1)] .
          have upd2: "\<And>b. b \<noteq> a \<Longrightarrow> h2 ! b = h1 ! b" by (simp add: h2_def)
          have "\<forall>b\<in>Ai'. h2 ! b = h1 ! b" using aAi' upd2 by metis
          with repr_frame(1)[OF r1, of h2] l2 have r2: "repr h2 v' s' Ai'" by simp
          have d2: "Ai' \<inter> C = {}" using fresh_disjoint[OF sub1 Cb(1) dC] .
          have same2: "\<forall>b\<in>C. h2 ! b = h ! b"
          proof
            fix b assume b: "b \<in> C"
            with aAi have "b \<noteq> a" by blast
            moreover from b Cb dC have "b < length h" "b \<notin> Ai" by auto
            ultimately show "h2 ! b = h ! b" using same1 upd2 by simp
          qed
          from upd[rule_format, OF r2 d2 _ same2[rule_format]] l1 l2
          have rs2: "reprs h2 ((h ! a)[idx := v']) (xs[idx := s']) (Ai' \<union> C)" by simp
          have h2a: "h2 ! a = (h ! a)[idx := v']" using a l1 h1a by (simp add: h2_def)
          have rb2: "repr h2 bv (setitem bstate idx s') (insert a (Ai' \<union> C))"
            unfolding bv bs setitem.simps
            using a l1 l2 rs2 h2a aAi' aAi by (intro repr_Ref) auto
          from "14.IH"(2)[OF True gi f[unfolded p] refl] rb2
          have sl: "sim_layers h2 (insert a (Ai' \<union> C)) bv
                (forward_layers L branch state_flags (Suc idx) Y1 (setitem bstate idx s'))
                (forward_layers_h L branch state_flags (Suc idx) Y1 bv h2)" by blast
          have heap_eq: "forward_layers_h L (layer # branch) (is_state # state_flags) idx Y bv h
                 = forward_layers_h L branch state_flags (Suc idx) Y1 bv h2"
            using True bv a idx' fh h1a by (simp add: h2_def)
          have val_eq: "forward_layers L (layer # branch) (is_state # state_flags) idx Y bstate
                 = forward_layers L branch state_flags (Suc idx) Y1 (setitem bstate idx s')"
            using True gi f p by simp
          show ?thesis
          proof (cases "forward_layers L branch state_flags (Suc idx) Y1 (setitem bstate idx s')")
            case (Inl e)
            with sl show ?thesis unfolding heap_eq val_eq by (simp add: sim_layers_def)
          next
            case (Inr q)
            obtain Y' bs' where q: "q = (Y', bs')" by (cases q)
            from sl Inr q obtain h' A' where
              fh': "forward_layers_h L branch state_flags (Suc idx) Y1 bv h2 = Inr (Y', h')"
              and r': "repr h' bv bs' A'" and fr': "frame h2 (insert a (Ai' \<union> C)) h' A'"
              by (auto simp: sim_layers_def)
            from fr' have l': "length h2 \<le> length h'"
              and sub': "A' \<subseteq> insert a (Ai' \<union> C) \<union> {length h2..<length h'}"
              and same': "\<forall>b<length h2. b \<notin> insert a (Ai' \<union> C) \<longrightarrow> h' ! b = h2 ! b"
              by (auto simp: frame_def)
            have "frame h A h' A'"
              unfolding frame_def
            proof (intro conjI allI impI)
              show "length h \<le> length h'" using l1 l2 l' by simp
              have "insert a (Ai' \<union> C) \<subseteq> A \<union> {length h..<length h2}"
                using sub1 A B l2 by auto
              from fresh_trans[OF sub' this] l1 l2 l'
              show "A' \<subseteq> A \<union> {length h..<length h'}" by simp
            next
              fix b assume b: "b < length h" "b \<notin> A"
              then have "b \<noteq> a" "b \<notin> Ai" "b \<notin> C" using A B by auto
              moreover from this b fresh_notin[OF sub1] have "b \<notin> Ai'" by blast
              ultimately show "h' ! b = h ! b" using same' same1 upd2 b l1 l2 by simp
            qed
            with fh' r' Inr q show ?thesis unfolding heap_eq val_eq
              by (auto simp: sim_layers_def)
          qed
        qed
      qed
    qed
  qed
next
  case (15 L state_flags idx Y bstate)
  then show ?case by (auto simp: sim_layers_def intro!: frame_refl dest: repr_bound(1))
next
  case (16 L v va idx Y bstate)
  then show ?case by (auto simp: sim_layers_def intro!: frame_refl dest: repr_bound(1))
next
  case (2 L X state)
  show ?case
    by (cases state)
       (auto simp: sim_forward_def frame_def elim!: repr_NoneE repr_LeafE repr_ListE
             intro: repr_reprs.intros split: sum.splits)
next
  case (11 L flags st X)
  show ?case
    by (auto simp: sim_branches_def intro: reprs_Nil)
next
  case (12 L v va st X)
  show ?case
    by (auto simp: sim_branches_def intro: reprs_Nil)
next
  case (13 L v va vb vc X)
  show ?case
    by (auto simp: sim_branches_def intro: reprs_Nil elim!: reprs_NilE)
next
  case (10 L branch nets state_flags flags bstate st X)
  show ?case
  proof (intro allI impI)
    fix h :: "'s store" and sr k osr pre vs A
    assume sr: "sr < length h" and osr: "osr < length h" and ne: "osr \<noteq> sr"
      and hsr: "h ! sr = pre @ vs" and k: "length pre = k"
      and rs: "reprs h vs (bstate # st) A" and srA: "sr \<notin> A" and osrA: "osr \<notin> A"
    from rs obtain v0 vs' A0 A1 where vs: "vs = v0 # vs'" and r0: "repr h v0 bstate A0"
      and r1: "reprs h vs' st A1" and A: "A = A0 \<union> A1" and d: "A0 \<inter> A1 = {}"
      by (auto elim: reprs_ConsE)
    have kk: "k < length (h ! sr)" "h ! sr ! k = v0" using hsr k vs by (auto simp: nth_append)
    from repr_bound(1)[OF r0] repr_bound(2)[OF r1]
    have bA: "A0 \<subseteq> {..<length h}" "A1 \<subseteq> {..<length h}" .
    define bs0 where "bs0 = (case bstate of SNone \<Rightarrow> SList (replicate (length branch) SNone)
              | SLeaf s \<Rightarrow> bstate | SList xs \<Rightarrow> bstate)"
    define bv where "bv = (case v0 of VNone \<Rightarrow> VRef (length h) | VLeaf s \<Rightarrow> VLeaf s
              | VRef r \<Rightarrow> VRef r)"
    define h1 where "h1 = (case v0 of VNone \<Rightarrow> h @ [replicate (length branch) VNone]
              | VLeaf s \<Rightarrow> h | VRef r \<Rightarrow> h)"
    have prep: "(case h ! sr ! k of
                 VNone \<Rightarrow> (VRef (length h), h @ [replicate (length branch) VNone])
               | VLeaf s \<Rightarrow> (VLeaf s, h)
               | VRef r \<Rightarrow> (VRef r, h)) = (bv, h1)"
      by (simp add: kk bv_def h1_def split: pyval.splits)
    have l1: "length h \<le> length h1" and same0: "\<forall>b<length h. h1 ! b = h ! b"
      by (auto simp: h1_def nth_append split: pyval.splits)
    have "\<exists>A0'. repr h1 bv bs0 A0' \<and> A0' \<subseteq> A0 \<union> {length h..<length h1}"
    proof (cases bstate)
      case SNone
      with r0 have v0: "v0 = VNone" by (auto elim: repr_NoneE)
      have "repr h1 (VRef (length h)) (SList (replicate (length branch) SNone)) (insert (length h) {})"
        by (rule repr_Ref) (auto simp: h1_def v0 intro: reprs_replicate)
      then show ?thesis by (auto simp: bs0_def bv_def SNone v0 h1_def)
    next
      case (SLeaf x)
      with r0 have v0: "v0 = VLeaf x" by (auto elim: repr_LeafE)
      show ?thesis by (auto simp: bs0_def bv_def SLeaf v0 h1_def intro: repr_Leaf)
    next
      case (SList xs)
      with r0 obtain a where v0: "v0 = VRef a" by (auto elim: repr_ListE)
      from r0 show ?thesis by (auto simp: bs0_def bv_def SList v0 h1_def)
    qed
    then obtain A0' where rb: "repr h1 bv bs0 A0'" and sub0: "A0' \<subseteq> A0 \<union> {length h..<length h1}"
      by blast
    from "10.IH"(1)[folded bs0_def] rb
    have sl: "sim_layers h1 A0' bv (forward_layers L branch state_flags 0 X bs0)
                (forward_layers_h L branch state_flags 0 X bv h1)" by blast
    have val_eq: "forward_branches L (branch # nets) (state_flags # flags) (bstate # st) X =
        (case forward_layers L branch state_flags 0 X bs0 of
           Inl e \<Rightarrow> Inl e
         | Inr (Y, bs') \<Rightarrow>
             (case forward_branches L nets flags st X of
                Inl e \<Rightarrow> Inl e
              | Inr (out, out_state) \<Rightarrow> Inr (Y # out, bs' # out_state)))"
      by (simp add: bs0_def)
    have heap_eq: "forward_branches_h L (branch # nets) (state_flags # flags) sr k X osr h =
        (case forward_layers_h L branch state_flags 0 X bv h1 of
           Inl e \<Rightarrow> Inl e
         | Inr (Y, h2) \<Rightarrow>
             (case forward_branches_h L nets flags sr (Suc k) X osr
                     (h2[osr := h2 ! osr @ [bv]]) of
                Inl e \<Rightarrow> Inl e
              | Inr (out, h3) \<Rightarrow> Inr (Y # out, h3)))"
      using kk(1) prep by simp
    show "sim_branches h A osr vs
            (forward_branches L (branch # nets) (state_flags # flags) (bstate # st) X)
            (forward_branches_h L (branch # nets) (state_flags # flags) sr k X osr h)"
    proof (cases "forward_layers L branch state_flags 0 X bs0")
      case (Inl e)
      with sl show ?thesis unfolding val_eq heap_eq by (simp add: sim_layers_def sim_branches_def)
    next
      case fl: (Inr p)
      obtain Y bs' where p: "p = (Y, bs')" by (cases p)
      from sl fl p obtain h2 A0'' where
        fh: "forward_layers_h L branch state_flags 0 X bv h1 = Inr (Y, h2)"
        and r2: "repr h2 bv bs' A0''" and fr: "frame h1 A0' h2 A0''"
        by (auto simp: sim_layers_def)
      from fr have l2: "length h1 \<le> length h2" and sub2: "A0'' \<subseteq> A0' \<union> {length h1..<length h2}"
        and same2: "\<forall>b<length h1. b \<notin> A0' \<longrightarrow> h2 ! b = h1 ! b" by (auto simp: frame_def)
      define h3 where "h3 = h2[osr := h2 ! osr @ [bv]]"
      have l3: "length h3 = length h2" by (simp add: h3_def)
      have upd3: "\<And>b. b \<noteq> osr \<Longrightarrow> h3 ! b = h2 ! b" by (simp add: h3_def)
      have keep: "\<And>b. b < length h \<Longrightarrow> b \<notin> A0 \<Longrightarrow> h2 ! b = h ! b"
      proof -
        fix b assume b: "b < length h" "b \<notin> A0"
        from fresh_notin[OF sub0 b] have "b \<notin> A0'" .
        with same2 b l1 same0 show "h2 ! b = h ! b" by simp
      qed
      have osr0: "osr \<notin> A0" and sr0: "sr \<notin> A0" and osr1: "osr \<notin> A1" and sr1: "sr \<notin> A1"
        using osrA srA A by auto
      have h3sr: "h3 ! sr = (pre @ [v0]) @ vs'"
        using upd3[of sr] ne keep[OF sr sr0] hsr vs by simp
      have h3osr: "h3 ! osr = h ! osr @ [bv]"
        using keep[OF osr osr0] osr l1 l2 by (simp add: h3_def)
      have "\<forall>a\<in>A1. h3 ! a = h ! a"
      proof
        fix a assume a: "a \<in> A1"
        with bA d osr1 have "a < length h" "a \<notin> A0" "a \<noteq> osr" by auto
        with upd3 keep show "h3 ! a = h ! a" by simp
      qed
      with repr_frame(2)[OF r1, of h3] l1 l2 l3 have r13: "reprs h3 vs' st A1" by simp
      from "10.IH"(2)[OF fl[unfolded p bs0_def] refl, rule_format, of sr h3 osr "pre @ [v0]" vs' "Suc k" A1]
        sr osr ne h3sr k r13 sr1 osr1 l1 l2 l3
      have sb: "sim_branches h3 A1 osr vs' (forward_branches L nets flags st X)
                  (forward_branches_h L nets flags sr (Suc k) X osr h3)" by simp
      show ?thesis
      proof (cases "forward_branches L nets flags st X")
        case (Inl e)
        with sb have "forward_branches_h L nets flags sr (Suc k) X osr
                     (h2[osr := h2 ! osr @ [bv]]) = Inl e"
          by (simp add: sim_branches_def h3_def)
        with Inl fl p fh show ?thesis unfolding val_eq heap_eq
          by (simp add: sim_branches_def)
      next
        case fb: (Inr q)
        obtain out os where q: "q = (out, os)" by (cases q)
        from sb fb q obtain h' vs'' A1' where
          fbh: "forward_branches_h L nets flags sr (Suc k) X osr h3 = Inr (out, h')"
          and ho: "h' ! osr = h3 ! osr @ vs''" and rs': "reprs h' vs'' os A1'"
          and l': "length h3 \<le> length h'" and sub': "A1' \<subseteq> A1 \<union> {length h3..<length h'}"
          and same': "\<forall>a<length h3. a \<notin> A1 \<longrightarrow> a \<noteq> osr \<longrightarrow> h' ! a = h3 ! a"
          and ru: "list_all2 (reused (length h3)) (take (length vs'') vs') vs''"
          by (auto simp: sim_branches_def)
        from repr_bound(1)[OF r2] have b2: "A0'' \<subseteq> {..<length h2}" .
        from fresh_trans[OF sub2 sub0 l1 l2] have sub02: "A0'' \<subseteq> A0 \<union> {length h..<length h2}" .
        have o2: "osr \<notin> A0''" using fresh_notin[OF sub02 osr osr0] .
        have d2: "A0'' \<inter> A1 = {}" using fresh_disjoint[OF sub02 bA(2) d] .
        have "\<forall>a\<in>A0''. h' ! a = h2 ! a"
        proof
          fix a assume a: "a \<in> A0''"
          with b2 d2 o2 have "a < length h3" "a \<notin> A1" "a \<noteq> osr" by (auto simp: l3)
          with same' upd3 show "h' ! a = h2 ! a" by simp
        qed
        with repr_frame(1)[OF r2, of h'] l' l3 have r2': "repr h' bv bs' A0''" by simp
        have d3: "A0'' \<inter> A1' = {}"
        proof -
          have "A1' \<inter> A0'' = {}"
            using sub' b2 d2 l3 by fastforce
          then show ?thesis by blast
        qed
        from reprs_Cons[OF r2' rs' d3] have rr: "reprs h' (bv # vs'') (bs' # os) (A0'' \<union> A1')" .
        have subF: "A0'' \<union> A1' \<subseteq> A \<union> {length h..<length h'}"
          using sub02 sub' l1 l2 l3 l' A by fastforce
        have sameF: "\<forall>a<length h. a \<notin> A \<longrightarrow> a \<noteq> osr \<longrightarrow> h' ! a = h ! a"
        proof (intro allI impI)
          fix a assume a: "a < length h" "a \<notin> A" "a \<noteq> osr"
          then have "a \<notin> A0" "a \<notin> A1" using A by auto
          with a same' upd3 keep l1 l2 l3 show "h' ! a = h ! a" by simp
        qed
        have "reused (length h) v0 bv" by (cases v0) (simp_all add: bv_def)
        moreover from ru have "list_all2 (reused (length h)) (take (length vs'') vs') vs''"
          by (rule list_all2_mono) (use l1 l2 l3 in \<open>auto elim: reused_mono\<close>)
        ultimately have ruF: "list_all2 (reused (length h)) (take (length (bv # vs'')) vs) (bv # vs'')"
          by (simp add: vs)
        have "h' ! osr = h ! osr @ (bv # vs'')" using ho h3osr by simp
        with rr subF sameF ruF fbh[unfolded h3_def] fh fl p fb q l1 l2 l3 l' show ?thesis
          unfolding val_eq heap_eq
          by (simp add: sim_branches_def) (intro exI[of _ "bv # vs''"] exI[of _ "A0'' \<union> A1'"], simp)
      qed
    qed
  qed
next
  case (1 L nets flags oc X state)
  show ?case
  proof (intro allI impI)
    fix h :: "'s store" and v A
    assume r: "repr h v state A"
    show "sim_forward h A (forward L (BlockGen nets flags oc) X state)
            (forward_h L (BlockGen nets flags oc) X v h)"
    proof (cases state)
      case (SLeaf x)
      with r have "v = VLeaf x" by (auto elim: repr_LeafE)
      with SLeaf show ?thesis by (simp add: sim_forward_def)
    next
      case SNone
      with r have v: "v = VNone" and A: "A = {}" by (auto elim: repr_NoneE)
      define eff :: "'s state list" where "eff = replicate (length nets) SNone"
      define h1 :: "'s store" where "h1 = h @ [[], replicate (length nets) VNone]"
      have prep: "(case state of SNone \<Rightarrow> Inr (replicate (length nets) SNone)
            | SList xs \<Rightarrow> Inr xs | SLeaf s \<Rightarrow> Inl TypeError) = (Inr eff :: error + 's state list)"
        by (simp add: SNone eff_def)
      have pre: "Suc (length h) < length h1" "length h < length h1" "length h \<noteq> Suc (length h)"
        "h1 ! Suc (length h) = [] @ replicate (length nets) VNone" "h1 ! length h = []"
        by (simp_all add: h1_def nth_append)
      have "reprs h1 (replicate (length nets) VNone) eff {}"
        unfolding eff_def by (rule reprs_replicate)
      with "1.IH"[OF prep, rule_format, of "Suc (length h)" h1 "length h" "[]"
                     "replicate (length nets) VNone" 0 "{}"] pre
      have sb: "sim_branches h1 {} (length h) (replicate (length nets) VNone)
              (forward_branches L nets flags eff X)
              (forward_branches_h L nets flags (Suc (length h)) 0 X (length h) h1)" by simp
      show ?thesis
      proof (cases "forward_branches L nets flags eff X")
        case (Inl e)
        with sb show ?thesis
          by (simp add: sim_branches_def sim_forward_def SNone v eff_def h1_def)
      next
        case fb: (Inr q)
        obtain out os where q: "q = (out, os)" by (cases q)
        from sb fb q obtain h' vs' A' where
          fbh: "forward_branches_h L nets flags (Suc (length h)) 0 X (length h) h1 = Inr (out, h')"
          and ho: "h' ! length h = vs'" and rs': "reprs h' vs' os A'"
          and l': "length h1 \<le> length h'" and sub': "A' \<subseteq> {} \<union> {length h1..<length h'}"
          and same': "\<forall>a<length h1. a \<notin> {} \<longrightarrow> a \<noteq> length h \<longrightarrow> h' ! a = h1 ! a"
          by (auto simp: sim_branches_def pre)
        have lh: "length h1 = Suc (Suc (length h))" by (simp add: h1_def)
        have nA: "length h \<notin> A'" using sub' lh by auto
        have rr: "repr h' (VRef (length h)) (SList os) (insert (length h) A')"
          using rs' ho nA l' lh by (intro repr_Ref) auto
        have fr: "frame h A h' (insert (length h) A')"
          unfolding frame_def
        proof (intro conjI allI impI)
          show "length h \<le> length h'" using l' lh by simp
          show "insert (length h) A' \<subseteq> A \<union> {length h..<length h'}" using sub' l' lh by auto
        next
          fix a assume "a < length h" "a \<notin> A"
          then show "h' ! a = h ! a" using same' lh by (simp add: h1_def nth_append)
        qed
        show ?thesis
        proof (cases "stack_sum out")
          case (Inl e)
          with fb q fbh show ?thesis
            by (simp add: sim_forward_def SNone v eff_def h1_def)
        next
          case (Inr Y)
          with fb q fbh rr fr show ?thesis
            by (auto simp: sim_forward_def SNone v eff_def h1_def)
        qed
      qed
    next
      case (SList xs)
      with r obtain a B where v: "v = VRef a" and a: "a < length h"
        and rs: "reprs h (h ! a) xs B" and A: "A = insert a B" and aB: "a \<notin> B"
        by (auto elim: repr_ListE)
      define h1 :: "'s store" where "h1 = h @ [[]]"
      have prep: "(case state of SNone \<Rightarrow> Inr (replicate (length nets) SNone)
            | SList xs \<Rightarrow> Inr xs | SLeaf s \<Rightarrow> Inl TypeError) = (Inr xs :: error + 's state list)"
        by (simp add: SList)
      from repr_bound(2)[OF rs] have bB: "B \<subseteq> {..<length h}" .
      have pre: "a < length h1" "length h < length h1" "length h \<noteq> a"
        "h1 ! a = [] @ h ! a" "h1 ! length h = []" "length h \<notin> B"
        using a bB by (auto simp: h1_def nth_append)
      have "\<forall>b\<in>B. h1 ! b = h ! b" using bB by (auto simp: h1_def nth_append)
      with repr_frame(2)[OF rs, of h1] have rs1: "reprs h1 (h ! a) xs B" by (simp add: h1_def)
      from "1.IH"[OF prep, rule_format, of a h1 "length h" "[]" "h ! a" 0 B] pre rs1 aB
      have sb: "sim_branches h1 B (length h) (h ! a) (forward_branches L nets flags xs X)
              (forward_branches_h L nets flags a 0 X (length h) h1)" by simp
      show ?thesis
      proof (cases "forward_branches L nets flags xs X")
        case (Inl e)
        with sb a show ?thesis
          by (simp add: sim_branches_def sim_forward_def SList v h1_def)
      next
        case fb: (Inr q)
        obtain out os where q: "q = (out, os)" by (cases q)
        from sb fb q obtain h' vs' A' where
          fbh: "forward_branches_h L nets flags a 0 X (length h) h1 = Inr (out, h')"
          and ho: "h' ! length h = vs'" and rs': "reprs h' vs' os A'"
          and l': "length h1 \<le> length h'" and sub': "A' \<subseteq> B \<union> {length h1..<length h'}"
          and same': "\<forall>b<length h1. b \<notin> B \<longrightarrow> b \<noteq> length h \<longrightarrow> h' ! b = h1 ! b"
          by (auto simp: sim_branches_def pre)
        have lh: "length h1 = Suc (length h)" by (simp add: h1_def)
        have nA: "length h \<notin> A'" using sub' lh bB by fastforce
        have rr: "repr h' (VRef (length h)) (SList os) (insert (length h) A')"
          using rs' ho nA l' lh by (intro repr_Ref) auto
        have fr: "frame h A h' (insert (length h) A')"
          unfolding frame_def
        proof (intro conjI allI impI)
          show "length h \<le> length h'" using l' lh by simp
          show "insert (length h) A' \<subseteq> A \<union> {length h..<length h'}" using sub' l' lh A by fastforce
        next
          fix b assume "b < length h" "b \<notin> A"
          then show "h' ! b = h ! b" using same' lh A by (simp add: h1_def nth_append)
        qed
        show ?thesis
        proof (cases "stack_sum out")
          case (Inl e)
          with fb q fbh a show ?thesis
            by (simp add: sim_forward_def SList v h1_def)
        next
          case (Inr Y)
          with fb q fbh rr fr a show ?thesis
            by (auto simp: sim_forward_def SList v h1_def)
        qed
      qed
    qed
  qed
qed (simp_all add: sim_forward_def)

lemma forward_h_simulates_forward:
  fixes L :: "('a::comm_ring_1, 's) layers"
  assumes "repr h v st A" and "forward L m X st = Inr (Y, s')"
  shows "\<exists>v' h' A'. forward_h L m X v h = Inr (Y, v', h') \<and> repr h' v' s' A' \<and> frame h A h' A'"
  using value_model_sim(1)[of st L m X, rule_format, OF assms(1)] assms(2)
  by (simp add: sim_forward_def)

lemma forward_h_fails_with_forward:
  fixes L :: "('a::comm_ring_1, 's) layers"
  assumes "repr h v st A" and "forward L m X st = Inl e"
  shows "forward_h L m X v h = Inl e"
  using value_model_sim(1)[of st L m X, rule_format, OF assms(1)] assms(2)
  by (simp add: sim_forward_def)

subsection \<open>The lists of the caller after a call\<close>

text \<open>
  What the code on the store does with each list of a container whose lists are reached
  once only: the caller's outer list is read and never written; the returned list has,
  for a branch entry that is \<open>None\<close>, a list that did not exist, and for a branch entry
  that is a list, that same list, which after the call holds the new state of the branch.
\<close>

lemma forward_h_on_caller_lists:
  fixes L :: "('a::comm_ring_1, 's) layers"
  assumes run: "forward_h L (BlockGen nets flags oc) X (VRef a) h = Inr (Y, v, h')"
    and r: "repr h (VRef a) (SList sts) A"
  shows "h' ! a = h ! a \<and>
         (\<forall>b<length h. b \<notin> A \<longrightarrow> h' ! b = h ! b) \<and>
         (\<exists>os. forward L (BlockGen nets flags oc) X (SList sts) = Inr (Y, SList os) \<and>
               length (h' ! length h) = length os \<and>
               (\<forall>k<length os.
                  reused (length h) (h ! a ! k) (h' ! length h ! k) \<and>
                  (\<exists>B. repr h' (h' ! length h ! k) (os ! k) B)))"
proof -
  from r obtain B where a: "a < length h"
    and rs: "reprs h (h ! a) sts B" and A: "A = insert a B" and aB: "a \<notin> B"
    by (auto elim: repr_ListE)
  define h1 :: "'s store" where "h1 = h @ [[]]"
  from repr_bound(2)[OF rs] have bB: "B \<subseteq> {..<length h}" .
  have pre: "a < length h1" "length h < length h1" "length h \<noteq> a"
    "h1 ! a = [] @ h ! a" "h1 ! length h = []" "length h \<notin> B"
    using a bB by (auto simp: h1_def nth_append)
  have lh: "length h1 = Suc (length h)" by (simp add: h1_def)
  have "\<forall>b\<in>B. h1 ! b = h ! b" using bB by (auto simp: h1_def nth_append)
  with repr_frame(2)[OF rs, of h1] have rs1: "reprs h1 (h ! a) sts B" by (simp add: h1_def)
  from value_model_sim(2)[of sts L nets flags X, rule_format, of a h1 "length h" "[]" "h ! a" 0 B]
    pre rs1 aB
  have sb: "sim_branches h1 B (length h) (h ! a) (forward_branches L nets flags sts X)
              (forward_branches_h L nets flags a 0 X (length h) h1)" by simp
  from run a obtain out where
    fbh: "forward_branches_h L nets flags a 0 X (length h) h1 = Inr (out, h')"
    and st: "stack_sum out = Inr Y"
    by (auto simp: h1_def split: sum.splits)
  from sb fbh obtain os vs' A' where
    fb: "forward_branches L nets flags sts X = Inr (out, os)"
    and ho: "h' ! length h = vs'" and rs': "reprs h' vs' os A'"
    and ru: "list_all2 (reused (length h1)) (take (length vs') (h ! a)) vs'"
    and l': "length h1 \<le> length h'"
    and same': "\<forall>b<length h1. b \<notin> B \<longrightarrow> b \<noteq> length h \<longrightarrow> h' ! b = h1 ! b"
    by (auto simp: sim_branches_def pre split: sum.splits)
  have keep: "h' ! b = h ! b" if "b < length h" "b \<notin> B" for b
    using same' that lh by (simp add: h1_def nth_append)
  have c1: "h' ! a = h ! a" using keep[OF a aB] .
  have c2: "\<forall>b<length h. b \<notin> A \<longrightarrow> h' ! b = h ! b" using keep A by simp
  have val: "forward L (BlockGen nets flags oc) X (SList sts) = Inr (Y, SList os)"
    using fb st by simp
  from reprs_length[OF rs'] have len: "length vs' = length os" .
  have c3: "reused (length h) (h ! a ! k) (h' ! length h ! k) \<and>
            (\<exists>B. repr h' (h' ! length h ! k) (os ! k) B)" if k: "k < length os" for k
  proof
    from list_all2_lengthD[OF ru] k len have kk: "k < length (h ! a)" by simp
    from list_all2_nthD2[OF ru] k len have "reused (length h1) (take (length vs') (h ! a) ! k) (vs' ! k)"
      by simp
    with k len have "reused (length h1) (h ! a ! k) (vs' ! k)" by simp
    from reused_mono[OF this, of "length h"] lh ho
    show "reused (length h) (h ! a ! k) (h' ! length h ! k)" by simp
  next
    from reprs_nth[OF rs', of k] k len ho
    show "\<exists>B. repr h' (h' ! length h ! k) (os ! k) B" by auto
  qed
  from c1 c2 val len ho c3 show ?thesis by auto
qed

text \<open>
  C3, as the code has it. A call of \<open>forward\<close> that returns, returns a list that did not
  exist before the call (its address is the first one past the incoming store, and the
  store has grown); and when no bit of the mask is set, every list that existed before
  the call is unchanged. For a container \<open>state\<close> of the caller whose lists are reached
  once only, moreover: the caller's outer list is not written, and no list outside the
  container is; the call returns what \<open>forward\<close> returns on the container as a value,
  \<open>os\<close>; and entry \<open>k\<close> of the returned list is a list that did not exist where the
  caller's entry is \<open>None\<close>, and is the caller's own list \<open>r\<close> where the caller's entry
  is a list, and then the elements of \<open>r\<close> after the call are the new state \<open>os ! k\<close> of
  branch \<open>k\<close>: the assignments to \<open>branch_state[idx]\<close> have been made in the caller's
  list.
\<close>

theorem forward_h_returns_fresh_list:
  fixes L :: "('a::comm_ring_1, 's) layers"
  assumes "forward_h L (BlockGen nets flags oc) X state h = Inr (Y, v, h')"
  shows "v = VRef (length h) \<and> length h < length h' \<and>
         (list_all (list_all Not) flags \<longrightarrow> take (length h) h' = h) \<and>
         (\<forall>a sts A. state = VRef a \<longrightarrow> repr h (VRef a) (SList sts) A \<longrightarrow>
            h' ! a = h ! a \<and>
            (\<forall>b<length h. b \<notin> A \<longrightarrow> h' ! b = h ! b) \<and>
            (\<exists>os. forward L (BlockGen nets flags oc) X (SList sts) = Inr (Y, SList os) \<and>
                  length (h' ! length h) = length os \<and>
                  (\<forall>k<length os.
                     (case h ! a ! k of
                        VNone \<Rightarrow> (\<exists>r. length h \<le> r \<and> h' ! length h ! k = VRef r)
                      | VLeaf x \<Rightarrow> h' ! length h ! k = VLeaf x
                      | VRef r \<Rightarrow> h' ! length h ! k = VRef r \<and>
                          (\<exists>bs B. os ! k = SList bs \<and> reprs h' (h' ! r) bs B)) \<and>
                     (\<exists>B. repr h' (h' ! length h ! k) (os ! k) B))))"
proof -
  from assms obtain sr h1 out where
    prep: "(case state of
              VNone \<Rightarrow> Inr (Suc (length h), h @ [[], replicate (length nets) VNone])
            | VRef a \<Rightarrow> if a < length h then Inr (a, h @ [[]]) else Inl TypeError
            | VLeaf s \<Rightarrow> Inl TypeError) = Inr (sr, h1)"
    and fb: "forward_branches_h L nets flags sr 0 X (length h) h1 = Inr (out, h')"
    and v: "v = VRef (length h)"
    by (auto split: sum.splits)
  from prep have h1: "length h < length h1" "\<forall>a<length h. h1 ! a = h ! a"
    by (auto split: pyval.splits if_splits simp: nth_append)
  from store_grows(2)[of L nets flags sr 0 X "length h" h1] fb have g: "length h1 \<le> length h'"
    by blast
  have nf: "take (length h) h' = h" if nf: "list_all (list_all Not) flags"
  proof (rule nth_equalityI)
    show "length (take (length h) h') = length h" using h1 g by simp
  next
    fix a assume "a < length (take (length h) h')"
    then have a: "a < length h" by simp
    from branches_h_no_flags[OF nf fb] a h1 have "h' ! a = h1 ! a" by auto
    with a h1 show "take (length h) h' ! a = h ! a" by simp
  qed
  have "h' ! a = h ! a \<and>
        (\<forall>b<length h. b \<notin> A \<longrightarrow> h' ! b = h ! b) \<and>
        (\<exists>os. forward L (BlockGen nets flags oc) X (SList sts) = Inr (Y, SList os) \<and>
              length (h' ! length h) = length os \<and>
              (\<forall>k<length os.
                 (case h ! a ! k of
                    VNone \<Rightarrow> (\<exists>r. length h \<le> r \<and> h' ! length h ! k = VRef r)
                  | VLeaf x \<Rightarrow> h' ! length h ! k = VLeaf x
                  | VRef r \<Rightarrow> h' ! length h ! k = VRef r \<and>
                      (\<exists>bs B. os ! k = SList bs \<and> reprs h' (h' ! r) bs B)) \<and>
                 (\<exists>B. repr h' (h' ! length h ! k) (os ! k) B)))"
    if st: "state = VRef a" and r: "repr h (VRef a) (SList sts) A" for a sts A
  proof -
    from forward_h_on_caller_lists[OF assms[unfolded st] r] obtain os where
      c1: "h' ! a = h ! a" and c2: "\<forall>b<length h. b \<notin> A \<longrightarrow> h' ! b = h ! b"
      and val: "forward L (BlockGen nets flags oc) X (SList sts) = Inr (Y, SList os)"
      and len: "length (h' ! length h) = length os"
      and ent: "\<forall>k<length os. reused (length h) (h ! a ! k) (h' ! length h ! k) \<and>
                  (\<exists>B. repr h' (h' ! length h ! k) (os ! k) B)"
      by blast
    have "(case h ! a ! k of
             VNone \<Rightarrow> (\<exists>r. length h \<le> r \<and> h' ! length h ! k = VRef r)
           | VLeaf x \<Rightarrow> h' ! length h ! k = VLeaf x
           | VRef r \<Rightarrow> h' ! length h ! k = VRef r \<and>
               (\<exists>bs B. os ! k = SList bs \<and> reprs h' (h' ! r) bs B)) \<and>
          (\<exists>B. repr h' (h' ! length h ! k) (os ! k) B)" if k: "k < length os" for k
    proof -
      from ent k obtain B where ru: "reused (length h) (h ! a ! k) (h' ! length h ! k)"
        and rp: "repr h' (h' ! length h ! k) (os ! k) B" by blast
      show ?thesis
      proof (cases "h ! a ! k")
        case VNone
        with ru rp show ?thesis by (auto split: pyval.splits)
      next
        case (VLeaf x)
        with ru rp show ?thesis by auto
      next
        case (VRef r)
        with ru have e: "h' ! length h ! k = VRef r" by simp
        from rp[unfolded e] obtain bs B' where "os ! k = SList bs" "reprs h' (h' ! r) bs B'"
          by (auto elim: repr_RefE)
        with VRef e rp show ?thesis by auto
      qed
    qed
    with c1 c2 val len show ?thesis by blast
  qed
  with v h1 g nf show ?thesis by auto
qed

theorem forward_h_returns_fresh_list_witness:
  "forward_h test_layers (BlockGen [[Storage]] [[False]] (Some 3)) (Tensor [1] [5]) (VRef 0)
       [[VRef 1], [VNone]] = Inr (Tensor [1] [5], VRef 2, [[VRef 1], [VNone], [VRef 1]])
   \<and> list_all (list_all Not) [[False]]
   \<and> take (length [[VRef 1], [VNone :: nat pyval]]) [[VRef 1], [VNone], [VRef 1 :: nat pyval]]
       = [[VRef 1], [VNone]]
   \<and> forward_h test_layers (BlockGen [[LIFCell], [Storage]] [[True], [False]] (Some 3))
       (Tensor [1] [5]) (VRef 0) [[VRef 1, VNone], [VLeaf 3]]
       = Inr (Tensor [1] [10], VRef 2, [[VRef 1, VNone], [VLeaf 4], [VRef 1, VRef 3], [VNone]])
   \<and> repr [[VRef 1, VNone], [VLeaf (3::nat)]] (VRef 0) (SList [SList [SLeaf 3], SNone]) {0, 1}
   \<and> forward test_layers (BlockGen [[LIFCell], [Storage]] [[True], [False]] (Some 3))
       (Tensor [1] [5]) (SList [SList [SLeaf 3], SNone])
       = Inr (Tensor [1] [10], SList [SList [SLeaf 4], SList [SNone]])
   \<and> [[VRef 1, VNone], [VLeaf 4], [VRef 1, VRef 3], [VNone :: nat pyval]] ! 0
       = [[VRef 1, VNone], [VLeaf 3]] ! 0
   \<and> [[VRef 1, VNone], [VLeaf 4], [VRef 1, VRef 3], [VNone :: nat pyval]] ! 2 ! 0 = VRef 1
   \<and> (\<exists>B. reprs [[VRef 1, VNone], [VLeaf 4], [VRef 1, VRef 3], [VNone :: nat pyval]]
          ([[VRef 1, VNone], [VLeaf 4], [VRef 1, VRef 3], [VNone]] ! 1) [SLeaf 4] B)"
proof -
  let ?h = "[[VRef 1, VNone], [VLeaf (3::nat)]]"
  let ?h' = "[[VRef 1, VNone], [VLeaf (4::nat)], [VRef 1, VRef 3], [VNone]]"
  have r1: "forward_h test_layers (BlockGen [[Storage]] [[False]] (Some 3)) (Tensor [1] [5]) (VRef 0)
       [[VRef 1], [VNone]] = Inr (Tensor [1] [5], VRef 2, [[VRef 1], [VNone], [VRef 1]])"
    by (simp add: test_layers_def stack_sum_def)
  have r2: "forward_h test_layers (BlockGen [[LIFCell], [Storage]] [[True], [False]] (Some 3))
       (Tensor [1] [5]) (VRef 0) ?h = Inr (Tensor [1] [10], VRef 2, ?h')"
    by (simp add: test_layers_def stack_sum_def same_size_def)
  have f2: "forward test_layers (BlockGen [[LIFCell], [Storage]] [[True], [False]] (Some 3))
       (Tensor [1] [5]) (SList [SList [SLeaf 3], SNone])
       = Inr (Tensor [1] [10], SList [SList [SLeaf 4], SList [SNone]])"
    by (simp add: test_layers_def stack_sum_def same_size_def)
  have "reprs ?h [VLeaf 3] [SLeaf 3] ({} \<union> {})"
    by (intro reprs_Cons repr_Leaf reprs_Nil) simp
  then have "repr ?h (VRef 1) (SList [SLeaf 3]) (insert 1 {})"
    by (intro repr_Ref) simp_all
  then have "reprs ?h [VRef 1, VNone] [SList [SLeaf 3], SNone] ({1} \<union> ({} \<union> {}))"
    by (intro reprs_Cons repr_None reprs_Nil) simp_all
  then have "repr ?h (VRef 0) (SList [SList [SLeaf 3], SNone]) (insert 0 {1})"
    by (intro repr_Ref) simp_all
  then have rp: "repr ?h (VRef 0) (SList [SList [SLeaf 3], SNone]) {0, 1}" by simp
  from forward_h_returns_fresh_list[OF r2] rp obtain os where
    "?h' ! 0 = ?h ! 0"
    "forward test_layers (BlockGen [[LIFCell], [Storage]] [[True], [False]] (Some 3))
       (Tensor [1] [5]) (SList [SList [SLeaf 3], SNone]) = Inr (Tensor [1] [10], SList os)"
    "\<forall>k<length os.
       (case ?h ! 0 ! k of
          VNone \<Rightarrow> (\<exists>r. length ?h \<le> r \<and> ?h' ! length ?h ! k = VRef r)
        | VLeaf x \<Rightarrow> ?h' ! length ?h ! k = VLeaf x
        | VRef r \<Rightarrow> ?h' ! length ?h ! k = VRef r \<and>
            (\<exists>bs B. os ! k = SList bs \<and> reprs ?h' (?h' ! r) bs B)) \<and>
       (\<exists>B. repr ?h' (?h' ! length ?h ! k) (os ! k) B)"
    by blast
  with f2 have os: "os = [SList [SLeaf 4], SList [SNone]]"
    and "(case ?h ! 0 ! 0 of
          VNone \<Rightarrow> (\<exists>r. length ?h \<le> r \<and> ?h' ! length ?h ! 0 = VRef r)
        | VLeaf x \<Rightarrow> ?h' ! length ?h ! 0 = VLeaf x
        | VRef r \<Rightarrow> ?h' ! length ?h ! 0 = VRef r \<and>
            (\<exists>bs B. os ! 0 = SList bs \<and> reprs ?h' (?h' ! r) bs B))"
    by auto
  then have w: "\<exists>B. reprs ?h' (?h' ! 1) [SLeaf 4] B" by simp
  from forward_h_returns_fresh_list[OF r1] r1 r2 rp f2 w show ?thesis by simp
qed

text \<open>
  C3, as the claim states it, fails: the block of one LIF cell is called with the
  container \<open>[[None]]\<close>, the outer list at address 0 and its branch entry at address 1.
  After the call the list at address 1 holds the new state of the cell, and the returned
  list, at address 2, has that same list as its entry.
\<close>

theorem forward_h_mutates_branch_entry_counterexample:
  "BlockGen_init 3 [Sub [Gen LIF]] = Inr (BlockGen [[LIFCell]] [[True]] (Some 3)) \<and>
   forward_h test_layers (BlockGen [[LIFCell]] [[True]] (Some 3)) (Tensor [1] [5]) (VRef 0)
       [[VRef 1], [VNone]] = Inr (Tensor [1] [5], VRef 2, [[VRef 1], [VLeaf 0], [VRef 1]]) \<and>
   [[VRef 1], [VLeaf 0], [VRef 1 :: nat pyval]] ! 1 \<noteq> [[VRef 1], [VNone]] ! 1"
  by (simp add: BlockGen_init_def ModuleList_def is_Module_def test_layers_def stack_sum_def)

end
